theory Spec2Isabelle
  imports Complex_Main "HOL-Library.Multiset" "HOL-Library.Sublist"
begin

section \<open>Python strings\<close>

text \<open>
  A Python \<open>str\<close> is modelled as a \<open>string\<close>; one \<open>char\<close> is one code point.  The
  embedding covers ASCII text: the classes below are the ASCII parts of Python's
  \<open>str.isspace\<close> (shared by \<open>str.strip()\<close>, \<open>str.split()\<close> and the regex class
  \<open>\s\<close>), of the regex class \<open>\w\<close>, and of \<open>str.lower()\<close>.  Floats that the code
  only compares or stores (scores, similarity, thresholds) are exact rationals.
\<close>

definition isspace :: "char \<Rightarrow> bool" where
  "isspace c = (c \<in> set [CHR 0x09, CHR 0x0A, CHR 0x0B, CHR 0x0C, CHR 0x0D,
                          CHR 0x1C, CHR 0x1D, CHR 0x1E, CHR 0x1F, CHR 0x20])"

definition ascii_upper :: string where
  "ascii_upper = ''ABCDEFGHIJKLMNOPQRSTUVWXYZ''"

definition ascii_lower :: string where
  "ascii_lower = ''abcdefghijklmnopqrstuvwxyz''"

definition isletter :: "char \<Rightarrow> bool" where
  "isletter c = (c \<in> set (ascii_upper @ ascii_lower))"

definition isdigit_char :: "char \<Rightarrow> bool" where
  "isdigit_char c = (c \<in> set ''0123456789'')"

definition isword :: "char \<Rightarrow> bool" where
  "isword c = (isletter c \<or> isdigit_char c \<or> c = CHR ''_'')"

definition lower_char :: "char \<Rightarrow> char" where
  "lower_char c = (case map_of (zip ascii_upper ascii_lower) c of Some d \<Rightarrow> d | None \<Rightarrow> c)"

definition lower :: "string \<Rightarrow> string" where
  "lower s = map lower_char s"

text \<open>\<open>s.strip(chars)\<close>: drop the characters of the class at both ends.\<close>

definition strip_chars :: "(char \<Rightarrow> bool) \<Rightarrow> string \<Rightarrow> string" where
  "strip_chars P s = rev (dropWhile P (rev (dropWhile P s)))"

definition strip :: "string \<Rightarrow> string" where
  "strip s = strip_chars isspace s"

text \<open>\<open>s.split()\<close>: the maximal runs of non-whitespace; \<open>w\<close> is the word being read.\<close>

fun split_ws :: "string \<Rightarrow> string \<Rightarrow> string list" where
  "split_ws w [] = (if w = [] then [] else [w])"
| "split_ws w (c # cs) =
     (if isspace c then (if w = [] then split_ws [] cs else w # split_ws [] cs)
      else split_ws (w @ [c]) cs)"

definition py_split :: "string \<Rightarrow> string list" where
  "py_split s = split_ws [] s"

text \<open>\<open>s.split(d)\<close> for a one-character delimiter: empty fields are kept.\<close>

fun split_on :: "char \<Rightarrow> string \<Rightarrow> string \<Rightarrow> string list" where
  "split_on d w [] = [w]"
| "split_on d w (c # cs) =
     (if c = d then w # split_on d [] cs else split_on d (w @ [c]) cs)"

text \<open>\<open>str.isdigit()\<close>: at least one character, all of them digits.\<close>

definition isdigit :: "string \<Rightarrow> bool" where
  "isdigit s = (s \<noteq> [] \<and> (\<forall>c \<in> set s. isdigit_char c))"

text \<open>\<open>list(dict.fromkeys(xs))\<close>: the first occurrence of each element, in order.\<close>

fun dict_fromkeys :: "'a list \<Rightarrow> 'a list \<Rightarrow> 'a list" where
  "dict_fromkeys seen [] = []"
| "dict_fromkeys seen (x # xs) =
     (if x \<in> set seen then dict_fromkeys seen xs else x # dict_fromkeys (seen @ [x]) xs)"

text \<open>\<open>re.sub(r'\s+', ' ', s)\<close>: each maximal run of whitespace becomes one space.\<close>

function sub_whitespace_runs :: "string \<Rightarrow> string" where
  "sub_whitespace_runs [] = []"
| "sub_whitespace_runs (c # cs) =
     (if isspace c then CHR 0x20 # sub_whitespace_runs (dropWhile isspace cs)
      else c # sub_whitespace_runs cs)"
  by pat_completeness auto
termination
  by (relation "measure length") (auto intro: le_imp_less_Suc length_dropWhile_le)

text \<open>\<open>re.sub(r'[^\w\s-]', '', s)\<close>: only word characters, whitespace and hyphens stay.\<close>

definition sub_special_chars :: "string \<Rightarrow> string" where
  "sub_special_chars s = filter (\<lambda>c. isword c \<or> isspace c \<or> c = CHR ''-'') s"

section \<open>Keyword processor (app/keyword/processor.py)\<close>

definition stop_words :: "string list" where
  "stop_words = [''a'', ''an'', ''and'', ''are'', ''as'', ''at'', ''be'', ''by'', ''for'', ''from'',
                 ''has'', ''he'', ''in'', ''is'', ''it'', ''its'', ''of'', ''on'', ''that'', ''the'',
                 ''to'', ''was'', ''will'', ''with'']"

definition clean_keyword :: "string \<Rightarrow> string" where
  "clean_keyword keyword =
     (if keyword = [] then []
      else let k1 = strip (lower keyword);
               k2 = sub_whitespace_runs k1;
               k3 = sub_special_chars k2;
               k4 = strip_chars (\<lambda>c. c = CHR ''-'') k3
           in strip k4)"

text \<open>
  \<open>re.match(r'^[^\w\s]+$', keyword)\<close>: \<open>$\<close> also matches just before one final newline.
\<close>

definition only_punctuation :: "string \<Rightarrow> bool" where
  "only_punctuation keyword =
     (let body = (if keyword \<noteq> [] \<and> last keyword = CHR 0x0A then butlast keyword else keyword)
      in body \<noteq> [] \<and> (\<forall>c \<in> set body. \<not> isword c \<and> \<not> isspace c))"

definition is_valid_keyword :: "string \<Rightarrow> bool" where
  "is_valid_keyword keyword =
     (if keyword = [] then False
      else if length keyword < 2 \<or> length keyword > 100 then False
      else if \<not> (\<exists>c \<in> set keyword. isletter c) then False
      else if isdigit keyword then False
      else if keyword \<in> set stop_words then False
      else if only_punctuation keyword then False
      else True)"

definition delimiters :: "char list" where
  "delimiters = [CHR '','', CHR 0x0A, CHR '';'', CHR 0x09]"

definition parse_keywords :: "string \<Rightarrow> string list" where
  "parse_keywords text =
     (let keywords = foldl (\<lambda>ks d. concat (map (split_on d []) ks)) [text] delimiters;
          cleaned_keywords =
            concat (map (\<lambda>keyword. let cleaned = clean_keyword (strip keyword)
                                    in if cleaned \<noteq> [] \<and> is_valid_keyword cleaned
                                       then [cleaned] else []) keywords)
      in dict_fromkeys [] cleaned_keywords)"

text \<open>Jaccard similarity of the two word sets; the quotient is an exact rational.\<close>

definition calculate_similarity :: "string \<Rightarrow> string \<Rightarrow> rat" where
  "calculate_similarity str1 str2 =
     (if str1 = [] \<or> str2 = [] then 0
      else let words1 = set (py_split (lower str1));
               words2 = set (py_split (lower str2))
           in if words1 = {} \<or> words2 = {} then 0
              else let intersection = card (words1 \<inter> words2);
                       union = card (words1 \<union> words2)
                   in if union > 0 then of_nat intersection / of_nat union else 0)"

text \<open>
  The inner loop of \<open>filter_similar_keywords\<close> over the accepted keywords; \<open>rest\<close> is
  what the iteration still has to visit.  It returns the accepted list and \<open>is_similar\<close>;
  the list is only changed immediately before the \<open>break\<close>.
\<close>

fun scan_existing :: "rat \<Rightarrow> string \<Rightarrow> string list \<Rightarrow> string list \<Rightarrow> string list \<times> bool" where
  "scan_existing threshold keyword filtered [] = (filtered, False)"
| "scan_existing threshold keyword filtered (existing # rest) =
     (if calculate_similarity keyword existing > threshold
      then (if length keyword < length existing
            then (remove1 existing filtered @ [keyword], True)
            else (filtered, True))
      else scan_existing threshold keyword filtered rest)"

fun filter_loop :: "rat \<Rightarrow> string list \<Rightarrow> string list \<Rightarrow> string list" where
  "filter_loop threshold [] filtered = filtered"
| "filter_loop threshold (keyword # keywords) filtered =
     (case scan_existing threshold keyword filtered filtered of
        (filtered', is_similar) \<Rightarrow>
          filter_loop threshold keywords
            (if is_similar then filtered' else filtered' @ [keyword]))"

definition filter_similar_keywords :: "string list \<Rightarrow> rat \<Rightarrow> string list" where
  "filter_similar_keywords keywords threshold =
     (if keywords = [] then [] else filter_loop threshold keywords [])"

section \<open>Keyword grouper (app/keyword/grouper.py)\<close>

text \<open>
  A group is the dictionary \<open>{"id", "name", "keywords", "score"}\<close>; the fields carry a
  \<open>g\<close> so that \<open>id\<close>, \<open>name\<close> and \<open>keywords\<close> stay free for variables.  The scores
  \<open>1.0\<close>, \<open>0.8\<close> and \<open>0.5\<close> are the rationals \<open>1\<close>, \<open>4/5\<close> and \<open>1/2\<close>.
\<close>

record keyword_group =
  gid :: string
  gname :: string
  gkeywords :: "string list"
  gscore :: rat

text \<open>
  The sentence-transformer model and scikit-learn's \<open>KMeans\<close> are outside the
  repository.  They are parameters: \<open>encode\<close> and \<open>kmeans_fit_predict\<close> return \<open>None\<close>
  when the call raises, and \<open>model_loaded\<close> says whether \<open>self.model\<close> was set.
\<close>

type_synonym embeddings = "rat list list"

record grouper_env =
  max_groups_per_batch :: int
  model_loaded :: bool
  encode :: "string list \<Rightarrow> embeddings option"
  kmeans_fit_predict :: "int \<Rightarrow> embeddings \<Rightarrow> int list option"

text \<open>\<open>str(n)\<close> for a natural number, as the f-strings of the group ids need it.\<close>

definition digit_char :: "nat \<Rightarrow> char" where
  "digit_char d = ''0123456789'' ! d"

function str_nat :: "nat \<Rightarrow> string" where
  "str_nat n = (if n < 10 then [digit_char n] else str_nat (n div 10) @ [digit_char (n mod 10)])"
  by pat_completeness auto
termination
  by (relation "measure id") auto

text \<open>
  \<open>word_freq\<close> is a dictionary in insertion order: an association list in which a new
  word goes to the end.  \<open>max(word_freq, key=word_freq.get)\<close> is the first key whose
  count is maximal.
\<close>

fun bump :: "(string \<times> nat) list \<Rightarrow> string \<Rightarrow> (string \<times> nat) list" where
  "bump [] word = [(word, 1)]"
| "bump ((k, n) # kvs) word = (if k = word then (k, n + 1) # kvs else (k, n) # bump kvs word)"

definition count_words :: "string list \<Rightarrow> (string \<times> nat) list" where
  "count_words kws =
     foldl (\<lambda>word_freq keyword.
              foldl (\<lambda>wf word. if length word > 2 then bump wf word else wf)
                    word_freq (py_split keyword))
           [] kws"

fun max_by_count :: "string \<times> nat \<Rightarrow> (string \<times> nat) list \<Rightarrow> string" where
  "max_by_count best [] = fst best"
| "max_by_count best (kv # kvs) =
     (if snd kv > snd best then max_by_count kv kvs else max_by_count best kvs)"

definition generate_group_name :: "string list \<Rightarrow> string" where
  "generate_group_name kws =
     (case kws of
        [] \<Rightarrow> ''Empty Group''
      | [k] \<Rightarrow> k
      | k # _ \<Rightarrow>
          (case count_words kws of
             [] \<Rightarrow> k @ '' group''
           | kv # kvs \<Rightarrow> max_by_count kv kvs @ '' related''))"

text \<open>
  The loop \<open>for i in range(0, len(keywords), group_size)\<close> of \<open>_fallback_grouping\<close>;
  \<open>kws[i:i + group_size]\<close> is \<open>take group_size (drop i kws)\<close>.
\<close>

function fallback_loop :: "string list \<Rightarrow> nat \<Rightarrow> keyword_group list \<Rightarrow> keyword_group list" where
  "fallback_loop kws i groups =
     (let group_size = max 3 (length kws div 5)
      in if i < length kws
         then let group_keywords = take group_size (drop i kws)
              in fallback_loop kws (i + group_size)
                   (groups @ [\<lparr>gid = ''group_'' @ str_nat (length groups + 1),
                                gname = generate_group_name group_keywords,
                                gkeywords = group_keywords,
                                gscore = 1 / 2\<rparr>])
         else groups)"
  by pat_completeness auto
termination
  by (relation "measure (\<lambda>(kws, i, groups). length kws - i)") auto

definition fallback_grouping :: "string list \<Rightarrow> keyword_group list" where
  "fallback_grouping kws = (if kws = [] then [] else fallback_loop kws 0 [])"

definition generate_embeddings :: "grouper_env \<Rightarrow> string list \<Rightarrow> embeddings option" where
  "generate_embeddings env kws = (if \<not> model_loaded env then None else encode env kws)"

definition n_clusters_of :: "grouper_env \<Rightarrow> string list \<Rightarrow> int" where
  "n_clusters_of env kws = min (max_groups_per_batch env) (max 1 (int (length kws) div 3))"

text \<open>
  \<open>[keywords[i] for i in range(len(keywords)) if cluster_labels[i] == cluster_id]\<close>
\<close>

definition cluster_members :: "string list \<Rightarrow> int list \<Rightarrow> nat \<Rightarrow> string list" where
  "cluster_members kws cluster_labels cluster_id =
     map (\<lambda>i. kws ! i) (filter (\<lambda>i. cluster_labels ! i = int cluster_id) [0..<length kws])"

text \<open>
  \<open>_cluster_keywords\<close>.  An exception inside its \<open>try\<close> leads to the fallback: that is
  \<open>KMeans\<close> raising, and the \<open>IndexError\<close> of \<open>cluster_labels[i]\<close> when there are fewer
  labels than keywords (it is raised before any group is returned).
\<close>

definition cluster_keywords :: "grouper_env \<Rightarrow> string list \<Rightarrow> embeddings \<Rightarrow> keyword_group list" where
  "cluster_keywords env kws embs =
     (let n_clusters = n_clusters_of env kws
      in if n_clusters \<le> 1
         then [\<lparr>gid = ''group_1'', gname = generate_group_name kws,
                 gkeywords = kws, gscore = 1\<rparr>]
         else (case kmeans_fit_predict env n_clusters embs of
                 None \<Rightarrow> fallback_grouping kws
               | Some cluster_labels \<Rightarrow>
                   if length cluster_labels < length kws then fallback_grouping kws
                   else concat (map (\<lambda>cluster_id.
                          let cluster_kws = cluster_members kws cluster_labels cluster_id
                          in if cluster_kws \<noteq> []
                             then [\<lparr>gid = ''group_'' @ str_nat (cluster_id + 1),
                                     gname = generate_group_name cluster_kws,
                                     gkeywords = cluster_kws,
                                     gscore = 4 / 5\<rparr>]
                             else [])
                        [0..<nat n_clusters])))"

text \<open>
  \<open>group_keywords\<close>.  Nothing inside its \<open>try\<close> raises on a list of strings (the two
  helpers catch their own exceptions), so its \<open>except\<close> branch has no case here.
\<close>

definition group_keywords :: "grouper_env \<Rightarrow> string list \<Rightarrow> keyword_group list" where
  "group_keywords env kws =
     (if kws = [] \<or> length kws < 2
      then [\<lparr>gid = ''group_1'', gname = (if kws \<noteq> [] then hd kws else ''empty''),
              gkeywords = kws, gscore = 1\<rparr>]
      else (case generate_embeddings env kws of
              None \<Rightarrow> fallback_grouping kws
            | Some embs \<Rightarrow> cluster_keywords env kws embs))"

section \<open>Store, cache and chat platform\<close>

text \<open>
  The handlers run against three services: the store (Supabase), the cache (Redis) and
  the chat platform (Slack).  A \<open>world\<close> holds what they contain, and counts the calls
  made to each.  Whether the n-th call to a service raises is decided by the
  environment, so that every \<open>try\<close>/\<open>except\<close> of the source has both of its branches.
  An exception is a value \<open>Inl e\<close>.  Time stamps are left out; the expiry of a cache
  key is the event \<open>expire\<close>.
\<close>

datatype error = StoreError | SlackApiError | CollaboratorError | KeyError | TypeError

record keyword_batch =
  b_id :: string
  b_user_id :: string
  b_keywords :: "string list"
  b_keyword_count :: nat
  b_status :: string
  b_source :: string
  b_completed_at :: "string option"

record group_row =
  r_batch_id :: string
  r_keywords :: "string list"
  r_cluster_name :: string
  r_similarity_score :: rat
  r_id :: string

type_synonym outline = string
type_synonym post_idea = string

record outline_row =
  o_group_id :: string
  o_outline_data :: outline

text \<open>
  A report is the dictionary that the report sink returns: \<open>report["download_url"]\<close>
  raises \<open>KeyError\<close> when the key is missing, \<open>report.get("email_sent")\<close> does not.
\<close>

record report =
  download_url :: "string option"
  email_sent :: bool

text \<open>
  A cached text is either the decimal text of an integer (written by \<open>json.dumps\<close> and
  by \<open>INCRBY\<close>, read back by \<open>json.loads\<close> as an integer) or a text that is not JSON,
  which \<open>get\<close> returns as it is.  The handlers store nothing else.
\<close>

datatype cache_value = CInt int | CStr string

record cache_entry =
  ce_value :: cache_value
  ce_ttl :: "nat option"

text \<open>One constructor for each method of \<open>MessageFormatter\<close> that the handlers call.\<close>

datatype message =
    UploadInstructions
  | PasteInstructions
  | ProcessUsage
  | RegenerateUsage
  | BatchNotFound
  | UnauthorizedBatch
  | NoKeywordsFound
  | KeywordsUploaded string nat
  | AlreadyProcessing
  | ProcessingStarted string nat
  | ProcessingStep string nat nat
  | ProcessingCompleted string nat nat string
  | EmailSent
  | ProcessingFailed string
  | NoGroupsFound
  | RegenerationStarted string
  | RegenerationCompleted string
  | RateLimitExceeded
  | ErrorMessage

record world =
  keyword_batches :: "string \<rightharpoonup> keyword_batch"
  keyword_groups :: "group_row list"
  outlines :: "outline_row list"
  redis :: "string \<rightharpoonup> cache_entry"
  posted :: "(string \<times> message) list"
  tasks :: "(keyword_batch \<times> string) list"
  db_calls :: nat
  cache_calls :: nat
  slack_calls :: nat

text \<open>
  \<open>redis_client\<close>: \<open>CacheManager.client\<close> is set.  \<open>new_id\<close>: the identifier that the
  store gives to a row.  The outline generator, the idea generator and the report sink
  are collaborators; \<open>None\<close> is a call that raises.
\<close>

record env =
  grouper :: grouper_env
  redis_client :: bool
  db_raises :: "nat \<Rightarrow> bool"
  cache_raises :: "nat \<Rightarrow> bool"
  slack_raises :: "nat \<Rightarrow> bool"
  new_id :: "nat \<Rightarrow> string"
  generate_outline :: "string list \<Rightarrow> outline option"
  generate_ideas :: "keyword_group list \<Rightarrow> post_idea list option"
  generate_report :: "string \<Rightarrow> keyword_group list \<Rightarrow> post_idea list \<Rightarrow> report option"

subsection \<open>DatabaseManager (app/storage/database.py)\<close>

definition db_tick :: "world \<Rightarrow> world" where
  "db_tick w = w\<lparr>db_calls := Suc (db_calls w)\<rparr>"

text \<open>\<open>create_keyword_batch\<close> logs and raises again.\<close>

definition create_keyword_batch ::
  "env \<Rightarrow> string \<Rightarrow> string list \<Rightarrow> nat \<Rightarrow> string \<Rightarrow> string \<Rightarrow> world \<Rightarrow> (error + keyword_batch) \<times> world" where
  "create_keyword_batch env uid kws n st src w =
     (if db_raises env (db_calls w) then (Inl StoreError, db_tick w)
      else let b = \<lparr>b_id = new_id env (db_calls w), b_user_id = uid, b_keywords = kws,
                     b_keyword_count = n, b_status = st, b_source = src,
                     b_completed_at = None\<rparr>
           in (Inr b, db_tick (w\<lparr>keyword_batches := (keyword_batches w)(b_id b \<mapsto> b)\<rparr>)))"

text \<open>\<open>get_keyword_batch\<close> catches every exception and returns \<open>None\<close>.\<close>

definition get_keyword_batch :: "env \<Rightarrow> string \<Rightarrow> world \<Rightarrow> keyword_batch option \<times> world" where
  "get_keyword_batch env bid w =
     (if db_raises env (db_calls w) then (None, db_tick w)
      else (keyword_batches w bid, db_tick w))"

text \<open>
  \<open>update_keyword_batch\<close> raises when the call fails and when no row has the
  identifier (``No data returned from update'').
\<close>

definition update_keyword_batch ::
  "env \<Rightarrow> string \<Rightarrow> (keyword_batch \<Rightarrow> keyword_batch) \<Rightarrow> world \<Rightarrow> (error + keyword_batch) \<times> world" where
  "update_keyword_batch env bid updates w =
     (if db_raises env (db_calls w) then (Inl StoreError, db_tick w)
      else (case keyword_batches w bid of
              None \<Rightarrow> (Inl StoreError, db_tick w)
            | Some b \<Rightarrow>
                (Inr (updates b),
                 db_tick (w\<lparr>keyword_batches := (keyword_batches w)(bid \<mapsto> updates b)\<rparr>))))"

definition create_keyword_group ::
  "env \<Rightarrow> string \<Rightarrow> string list \<Rightarrow> string \<Rightarrow> rat \<Rightarrow> world \<Rightarrow> (error + group_row) \<times> world" where
  "create_keyword_group env bid kws cname sc w =
     (if db_raises env (db_calls w) then (Inl StoreError, db_tick w)
      else let r = \<lparr>r_batch_id = bid, r_keywords = kws, r_cluster_name = cname,
                     r_similarity_score = sc, r_id = new_id env (db_calls w)\<rparr>
           in (Inr r, db_tick (w\<lparr>keyword_groups := keyword_groups w @ [r]\<rparr>)))"

definition get_keyword_groups_by_batch :: "env \<Rightarrow> string \<Rightarrow> world \<Rightarrow> group_row list \<times> world" where
  "get_keyword_groups_by_batch env bid w =
     (if db_raises env (db_calls w) then ([], db_tick w)
      else (filter (\<lambda>r. r_batch_id r = bid) (keyword_groups w), db_tick w))"

definition create_outline :: "env \<Rightarrow> string \<Rightarrow> outline \<Rightarrow> world \<Rightarrow> (error + outline_row) \<times> world" where
  "create_outline env gid' data w =
     (if db_raises env (db_calls w) then (Inl StoreError, db_tick w)
      else let r = \<lparr>o_group_id = gid', o_outline_data = data\<rparr>
           in (Inr r, db_tick (w\<lparr>outlines := outlines w @ [r]\<rparr>)))"

definition update_outline :: "env \<Rightarrow> string \<Rightarrow> outline \<Rightarrow> world \<Rightarrow> (error + outline_row) \<times> world" where
  "update_outline env gid' data w =
     (if db_raises env (db_calls w) then (Inl StoreError, db_tick w)
      else if \<not> (\<exists>r \<in> set (outlines w). o_group_id r = gid') then (Inl StoreError, db_tick w)
      else (Inr \<lparr>o_group_id = gid', o_outline_data = data\<rparr>,
            db_tick (w\<lparr>outlines := map (\<lambda>r. if o_group_id r = gid'
                                              then r\<lparr>o_outline_data := data\<rparr> else r)
                                        (outlines w)\<rparr>)))"

subsection \<open>CacheManager (app/storage/cache.py)\<close>

text \<open>
  Every method returns its default when there is no client (no call is made) and when
  the call raises (the exception is caught and logged).
\<close>

definition cache_tick :: "world \<Rightarrow> world" where
  "cache_tick w = w\<lparr>cache_calls := Suc (cache_calls w)\<rparr>"

definition cache_set :: "env \<Rightarrow> string \<Rightarrow> cache_value \<Rightarrow> nat \<Rightarrow> world \<Rightarrow> bool \<times> world" where
  "cache_set env key v ttl w =
     (if \<not> redis_client env then (False, w)
      else if cache_raises env (cache_calls w) then (False, cache_tick w)
      else (True, cache_tick (w\<lparr>redis := (redis w)(key \<mapsto> \<lparr>ce_value = v, ce_ttl = Some ttl\<rparr>)\<rparr>)))"

definition cache_get :: "env \<Rightarrow> string \<Rightarrow> world \<Rightarrow> cache_value option \<times> world" where
  "cache_get env key w =
     (if \<not> redis_client env then (None, w)
      else if cache_raises env (cache_calls w) then (None, cache_tick w)
      else (map_option ce_value (redis w key), cache_tick w))"

definition cache_delete :: "env \<Rightarrow> string \<Rightarrow> world \<Rightarrow> bool \<times> world" where
  "cache_delete env key w =
     (if \<not> redis_client env then (False, w)
      else if cache_raises env (cache_calls w) then (False, cache_tick w)
      else (redis w key \<noteq> None, cache_tick (w\<lparr>redis := (redis w)(key := None)\<rparr>)))"

definition cache_exists :: "env \<Rightarrow> string \<Rightarrow> world \<Rightarrow> bool \<times> world" where
  "cache_exists env key w =
     (if \<not> redis_client env then (False, w)
      else if cache_raises env (cache_calls w) then (False, cache_tick w)
      else (redis w key \<noteq> None, cache_tick w))"

text \<open>
  \<open>INCRBY\<close> keeps the expiry of the key, creates a missing key without expiry, and
  is an error on a text that is no integer.
\<close>

definition cache_increment :: "env \<Rightarrow> string \<Rightarrow> int \<Rightarrow> world \<Rightarrow> int \<times> world" where
  "cache_increment env key amount w =
     (if \<not> redis_client env then (0, w)
      else if cache_raises env (cache_calls w) then (0, cache_tick w)
      else (case redis w key of
              None \<Rightarrow>
                (amount, cache_tick (w\<lparr>redis := (redis w)(key \<mapsto> \<lparr>ce_value = CInt amount,
                                                                    ce_ttl = None\<rparr>)\<rparr>))
            | Some e \<Rightarrow>
                (case ce_value e of
                   CInt n \<Rightarrow>
                     (n + amount,
                      cache_tick (w\<lparr>redis := (redis w)(key \<mapsto> e\<lparr>ce_value := CInt (n + amount)\<rparr>)\<rparr>))
                 | CStr s \<Rightarrow> (0, cache_tick w))))"

text \<open>The key of a cache entry runs out: Redis removes it.\<close>

definition expire :: "string \<Rightarrow> world \<Rightarrow> world" where
  "expire key w = w\<lparr>redis := (redis w)(key := None)\<rparr>"

subsection \<open>Chat platform\<close>

definition chat_postMessage :: "env \<Rightarrow> string \<Rightarrow> message \<Rightarrow> world \<Rightarrow> (error + unit) \<times> world" where
  "chat_postMessage env channel msg w =
     (if slack_raises env (slack_calls w)
      then (Inl SlackApiError, w\<lparr>slack_calls := Suc (slack_calls w)\<rparr>)
      else (Inr (), w\<lparr>slack_calls := Suc (slack_calls w),
                      posted := posted w @ [(channel, msg)]\<rparr>))"

section \<open>Command handlers (app/slack/commands.py)\<close>

text \<open>Sequencing of two steps of a coroutine: an exception ends the sequence.\<close>

definition and_then ::
  "(world \<Rightarrow> (error + 'a) \<times> world) \<Rightarrow> ('a \<Rightarrow> world \<Rightarrow> (error + 'b) \<times> world)
     \<Rightarrow> world \<Rightarrow> (error + 'b) \<times> world" where
  "and_then m f w = (case m w of (Inl e, w') \<Rightarrow> (Inl e, w') | (Inr x, w') \<Rightarrow> f x w')"

text \<open>A slash command: \<open>command["user_id"]\<close>, \<open>command["channel_id"]\<close>, \<open>command.get("text", "")\<close>.\<close>

record command =
  c_user_id :: string
  c_channel_id :: string
  c_text :: "string option"

definition command_text :: "command \<Rightarrow> string" where
  "command_text c = strip (case c_text c of None \<Rightarrow> [] | Some t \<Rightarrow> t)"

definition send_rate_limit_message :: "env \<Rightarrow> string \<Rightarrow> world \<Rightarrow> (error + unit) \<times> world" where
  "send_rate_limit_message env channel w = chat_postMessage env channel RateLimitExceeded w"

definition send_error_message :: "env \<Rightarrow> string \<Rightarrow> world \<Rightarrow> (error + unit) \<times> world" where
  "send_error_message env channel w = chat_postMessage env channel ErrorMessage w"

definition rate_limit_key :: "string \<Rightarrow> string" where
  "rate_limit_key uid = ''rate_limit:'' @ uid"

definition lock_key :: "string \<Rightarrow> string" where
  "lock_key bid = ''processing:'' @ bid"

text \<open>
  \<open>_check_rate_limit\<close>.  \<open>current >= 10\<close> raises \<open>TypeError\<close> when the cached value is
  a string.
\<close>

definition check_rate_limit :: "env \<Rightarrow> string \<Rightarrow> world \<Rightarrow> (error + bool) \<times> world" where
  "check_rate_limit env uid w =
     (let key = rate_limit_key uid;
          (current, w1) = cache_get env key w
      in case current of
           None \<Rightarrow> (let (r, w2) = cache_set env key (CInt 1) 900 w1 in (Inr True, w2))
         | Some (CStr s) \<Rightarrow> (Inl TypeError, w1)
         | Some (CInt n) \<Rightarrow>
             if n \<ge> 10 then (Inr False, w1)
             else (let (r, w2) = cache_increment env key 1 w1 in (Inr True, w2)))"

text \<open>\<open>_process_keywords_from_text\<close>, with its own \<open>try\<close>/\<open>except\<close>.\<close>

definition process_keywords_from_text ::
  "env \<Rightarrow> string \<Rightarrow> string \<Rightarrow> string \<Rightarrow> world \<Rightarrow> (error + unit) \<times> world" where
  "process_keywords_from_text env text uid channel w =
     (let kws = parse_keywords text
      in case (if kws = [] then chat_postMessage env channel NoKeywordsFound w
               else and_then (create_keyword_batch env uid kws (length kws) ''uploaded'' ''text'')
                      (\<lambda>batch. chat_postMessage env channel
                                  (KeywordsUploaded (b_id batch) (length kws))) w) of
           (Inr u, w') \<Rightarrow> (Inr (), w')
         | (Inl e, w') \<Rightarrow> send_error_message env channel w')"

text \<open>\<open>handle_keywords_command\<close>: the only caller of the rate-limit check.\<close>

definition handle_keywords_command :: "env \<Rightarrow> command \<Rightarrow> world \<Rightarrow> (error + unit) \<times> world" where
  "handle_keywords_command env c w =
     (let uid = c_user_id c; channel = c_channel_id c; text = command_text c
      in case and_then (check_rate_limit env uid)
                (\<lambda>ok. if \<not> ok then send_rate_limit_message env channel
                       else if text = [] \<or> text = ''upload''
                         then chat_postMessage env channel UploadInstructions
                       else if text = ''paste''
                         then chat_postMessage env channel PasteInstructions
                       else process_keywords_from_text env text uid channel) w of
           (Inr u, w') \<Rightarrow> (Inr (), w')
         | (Inl e, w') \<Rightarrow> send_error_message env channel w')"

text \<open>
  \<open>_start_batch_processing\<close>.  \<open>asyncio.create_task\<close> is recorded in \<open>tasks\<close>: one entry
  for each pipeline run that is started.
\<close>

definition start_batch_processing ::
  "env \<Rightarrow> keyword_batch \<Rightarrow> string \<Rightarrow> world \<Rightarrow> (error + unit) \<times> world" where
  "start_batch_processing env batch channel w =
     (let bid = b_id batch;
          (locked, w1) = cache_exists env (lock_key bid) w
      in case (if locked then chat_postMessage env channel AlreadyProcessing w1
               else let (r, w2) = cache_set env (lock_key bid) (CStr ''processing'') 1800 w1
                    in and_then (chat_postMessage env channel
                                   (ProcessingStarted bid (b_keyword_count batch)))
                         (\<lambda>u w3. (Inr (), w3\<lparr>tasks := tasks w3 @ [(batch, channel)]\<rparr>)) w2) of
           (Inr u, w') \<Rightarrow> (Inr (), w')
         | (Inl e, w') \<Rightarrow> send_error_message env channel w')"

text \<open>The two loops over the groups in \<open>_process_batch_background\<close>.\<close>

fun save_groups :: "env \<Rightarrow> string \<Rightarrow> keyword_group list \<Rightarrow> world \<Rightarrow> (error + unit) \<times> world" where
  "save_groups env bid [] w = (Inr (), w)"
| "save_groups env bid (g # gs) w =
     (case create_keyword_group env bid (gkeywords g) (gname g) (gscore g) w of
        (Inl e, w') \<Rightarrow> (Inl e, w')
      | (Inr r, w') \<Rightarrow> save_groups env bid gs w')"

fun make_outlines :: "env \<Rightarrow> keyword_group list \<Rightarrow> world \<Rightarrow> (error + unit) \<times> world" where
  "make_outlines env [] w = (Inr (), w)"
| "make_outlines env (g # gs) w =
     (case generate_outline env (gkeywords g) of
        None \<Rightarrow> (Inl CollaboratorError, w)
      | Some ol \<Rightarrow>
          (case create_outline env (gid g) ol w of
             (Inl e, w') \<Rightarrow> (Inl e, w')
           | (Inr r, w') \<Rightarrow> make_outlines env gs w'))"

definition collaborator :: "'a option \<Rightarrow> world \<Rightarrow> (error + 'a) \<times> world" where
  "collaborator r w = (case r of None \<Rightarrow> (Inl CollaboratorError, w) | Some x \<Rightarrow> (Inr x, w))"

definition lookup_key :: "'a option \<Rightarrow> world \<Rightarrow> (error + 'a) \<times> world" where
  "lookup_key r w = (case r of None \<Rightarrow> (Inl KeyError, w) | Some x \<Rightarrow> (Inr x, w))"

text \<open>The body of the \<open>try\<close> of \<open>_process_batch_background\<close>, statement by statement.\<close>

definition pipeline_try ::
  "env \<Rightarrow> keyword_batch \<Rightarrow> string \<Rightarrow> world \<Rightarrow> (error + unit) \<times> world" where
  "pipeline_try env batch channel =
     (let bid = b_id batch
      in and_then (update_keyword_batch env bid (\<lambda>b. b\<lparr>b_status := ''processing''\<rparr>)) (\<lambda>b1.
         and_then (chat_postMessage env channel (ProcessingStep ''Grouping keywords'' 1 4)) (\<lambda>u1.
         let groups = group_keywords (grouper env) (b_keywords batch)
         in and_then (save_groups env bid groups) (\<lambda>u2.
            and_then (chat_postMessage env channel (ProcessingStep ''Generating outlines'' 2 4)) (\<lambda>u3.
            and_then (make_outlines env groups) (\<lambda>u4.
            and_then (chat_postMessage env channel (ProcessingStep ''Generating post ideas'' 3 4)) (\<lambda>u5.
            and_then (collaborator (generate_ideas env groups)) (\<lambda>post_ideas.
            and_then (chat_postMessage env channel (ProcessingStep ''Generating report'' 4 4)) (\<lambda>u6.
            and_then (collaborator (generate_report env bid groups post_ideas)) (\<lambda>rep.
            and_then (update_keyword_batch env bid
                        (\<lambda>b. b\<lparr>b_status := ''completed'', b_completed_at := Some ''now()''\<rparr>)) (\<lambda>b2.
            and_then (lookup_key (download_url rep)) (\<lambda>url.
            and_then (chat_postMessage env channel
                        (ProcessingCompleted bid (length groups) (length post_ideas) url)) (\<lambda>u7.
            and_then (if email_sent rep then chat_postMessage env channel EmailSent
                      else (\<lambda>w. (Inr (), w))) (\<lambda>u8 w.
            let (r, w') = cache_delete env (lock_key bid) w in (Inr (), w')))))))))))))))"

text \<open>
  The \<open>except\<close> branch of \<open>_process_batch_background\<close>: nothing catches what its own
  statements raise.
\<close>

definition pipeline_except ::
  "env \<Rightarrow> keyword_batch \<Rightarrow> string \<Rightarrow> world \<Rightarrow> (error + unit) \<times> world" where
  "pipeline_except env batch channel =
     (let bid = b_id batch
      in and_then (update_keyword_batch env bid (\<lambda>b. b\<lparr>b_status := ''failed''\<rparr>)) (\<lambda>b1 w.
         let (r, w') = cache_delete env (lock_key bid) w
         in chat_postMessage env channel (ProcessingFailed bid) w'))"

definition process_batch_background ::
  "env \<Rightarrow> keyword_batch \<Rightarrow> string \<Rightarrow> world \<Rightarrow> (error + unit) \<times> world" where
  "process_batch_background env batch channel w =
     (case pipeline_try env batch channel w of
        (Inr u, w') \<Rightarrow> (Inr (), w')
      | (Inl e, w') \<Rightarrow> pipeline_except env batch channel w')"

definition handle_process_command :: "env \<Rightarrow> command \<Rightarrow> world \<Rightarrow> (error + unit) \<times> world" where
  "handle_process_command env c w =
     (let uid = c_user_id c; channel = c_channel_id c; bid = command_text c
      in case (if bid = [] then chat_postMessage env channel ProcessUsage w
               else let (batch, w1) = get_keyword_batch env bid w
                    in case batch of
                         None \<Rightarrow> chat_postMessage env channel BatchNotFound w1
                       | Some b \<Rightarrow>
                           if b_user_id b \<noteq> uid
                           then chat_postMessage env channel UnauthorizedBatch w1
                           else start_batch_processing env b channel w1) of
           (Inr u, w') \<Rightarrow> (Inr (), w')
         | (Inl e, w') \<Rightarrow> send_error_message env channel w')"

fun regenerate_loop :: "env \<Rightarrow> group_row list \<Rightarrow> world \<Rightarrow> (error + unit) \<times> world" where
  "regenerate_loop env [] w = (Inr (), w)"
| "regenerate_loop env (g # gs) w =
     (case generate_outline env (r_keywords g) of
        None \<Rightarrow> (Inl CollaboratorError, w)
      | Some ol \<Rightarrow>
          (case update_outline env (r_id g) ol w of
             (Inl e, w') \<Rightarrow> (Inl e, w')
           | (Inr r, w') \<Rightarrow> regenerate_loop env gs w'))"

definition regenerate_outlines ::
  "env \<Rightarrow> keyword_batch \<Rightarrow> string \<Rightarrow> world \<Rightarrow> (error + unit) \<times> world" where
  "regenerate_outlines env batch channel w =
     (let bid = b_id batch;
          (groups, w1) = get_keyword_groups_by_batch env bid w
      in case (if groups = [] then chat_postMessage env channel NoGroupsFound w1
               else and_then (chat_postMessage env channel (RegenerationStarted bid)) (\<lambda>u1.
                    and_then (regenerate_loop env groups) (\<lambda>u2.
                    chat_postMessage env channel (RegenerationCompleted bid))) w1) of
           (Inr u, w') \<Rightarrow> (Inr (), w')
         | (Inl e, w') \<Rightarrow> send_error_message env channel w')"

definition handle_regenerate_command :: "env \<Rightarrow> command \<Rightarrow> world \<Rightarrow> (error + unit) \<times> world" where
  "handle_regenerate_command env c w =
     (let uid = c_user_id c; channel = c_channel_id c; bid = command_text c
      in case (if bid = [] then chat_postMessage env channel RegenerateUsage w
               else let (batch, w1) = get_keyword_batch env bid w
                    in case batch of
                         None \<Rightarrow> chat_postMessage env channel BatchNotFound w1
                       | Some b \<Rightarrow>
                           if b_user_id b \<noteq> uid
                           then chat_postMessage env channel BatchNotFound w1
                           else regenerate_outlines env b channel w1) of
           (Inr u, w') \<Rightarrow> (Inr (), w')
         | (Inl e, w') \<Rightarrow> send_error_message env channel w')"

section \<open>Specification-level notions\<close>

text \<open>
  The specification's ``contiguous chunks of size \<open>n\<close> in input order'': every chunk
  but the last has \<open>n\<close> elements.
\<close>

function chunks :: "nat \<Rightarrow> 'a list \<Rightarrow> 'a list list" where
  "chunks n xs = (if xs = [] \<or> n = 0 then [] else take n xs # chunks n (drop n xs))"
  by pat_completeness auto
termination
  by (relation "measure (\<lambda>(n, xs). length xs)") auto

text \<open>
  The specification's \<open>filterSimilar\<close>: a greedy pass; a keyword whose Jaccard similarity
  (over word sets) to an accepted keyword exceeds the threshold is not accepted, but
  replaces that keyword when it is the shorter string; otherwise it is accepted.
\<close>

definition word_set :: "string \<Rightarrow> string set" where
  "word_set s = set (py_split (lower s))"

definition jaccard :: "string set \<Rightarrow> string set \<Rightarrow> rat" where
  "jaccard A B = of_nat (card (A \<inter> B)) / of_nat (card (A \<union> B))"

definition spec_accept :: "rat \<Rightarrow> string list \<Rightarrow> string \<Rightarrow> string list" where
  "spec_accept threshold accepted keyword =
     (case find (\<lambda>existing. jaccard (word_set keyword) (word_set existing) > threshold) accepted of
        None \<Rightarrow> accepted @ [keyword]
      | Some existing \<Rightarrow>
          if length keyword < length existing then remove1 existing accepted @ [keyword]
          else accepted)"

definition filterSimilar_spec :: "string list \<Rightarrow> rat \<Rightarrow> string list" where
  "filterSimilar_spec kws threshold = foldl (spec_accept threshold) [] kws"

text \<open>Requests to \<open>/keywords\<close> in a row, each handled by \<open>handle_keywords_command\<close>.\<close>

fun keywords_requests :: "env \<Rightarrow> command list \<Rightarrow> world \<Rightarrow> world" where
  "keywords_requests env [] w = w"
| "keywords_requests env (c # cs) w =
     keywords_requests env cs (snd (handle_keywords_command env c w))"

section \<open>Concrete inputs\<close>

definition kws6 :: "string list" where
  "kws6 = [''seo tips'', ''seo tools'', ''content plan'', ''content ideas'', ''email list'',
           ''email tools'']"

definition kws12 :: "string list" where
  "kws12 = kws6 @ [''link building'', ''link audit'', ''site speed'', ''site map'',
                   ''local seo'', ''local ads'']"

definition grouper_ok :: grouper_env where
  "grouper_ok = \<lparr>max_groups_per_batch = 20, model_loaded = True,
                  encode = (\<lambda>kws. Some (map (\<lambda>k. [1]) kws)),
                  kmeans_fit_predict = (\<lambda>k embs. Some [0, 1, 1, 0, 1, 0])\<rparr>"

definition grouper_no_model :: grouper_env where
  "grouper_no_model = grouper_ok\<lparr>model_loaded := False\<rparr>"

definition env_ok :: env where
  "env_ok = \<lparr>grouper = grouper_ok, redis_client = True,
              db_raises = (\<lambda>n. False), cache_raises = (\<lambda>n. False),
              slack_raises = (\<lambda>n. False),
              new_id = (\<lambda>n. ''row_'' @ str_nat n),
              generate_outline = (\<lambda>kws. Some ''outline''),
              generate_ideas = (\<lambda>groups. Some (map gname groups)),
              generate_report = (\<lambda>bid groups ideas.
                 Some \<lparr>download_url = Some ''https://example.org/report.pdf'',
                       email_sent = False\<rparr>)\<rparr>"

text \<open>The store stops answering from its third call on.\<close>

definition env_store_down :: env where
  "env_store_down = env_ok\<lparr>db_raises := (\<lambda>n. 2 \<le> n)\<rparr>"

definition env_no_cache :: env where
  "env_no_cache = env_ok\<lparr>redis_client := False\<rparr>"

definition batch1 :: keyword_batch where
  "batch1 = \<lparr>b_id = ''b1'', b_user_id = ''U1'', b_keywords = [''seo tips''],
              b_keyword_count = 1, b_status = ''uploaded'', b_source = ''text'',
              b_completed_at = None\<rparr>"

definition world1 :: world where
  "world1 = \<lparr>keyword_batches = [''b1'' \<mapsto> batch1], keyword_groups = [], outlines = [],
              redis = Map.empty, posted = [], tasks = [],
              db_calls = 0, cache_calls = 0, slack_calls = 0\<rparr>"

definition world_locked :: world where
  "world_locked = world1\<lparr>redis := [lock_key ''b1'' \<mapsto>
                                      \<lparr>ce_value = CStr ''processing'', ce_ttl = Some 1800\<rparr>]\<rparr>"

definition cmd :: "string \<Rightarrow> string \<Rightarrow> command" where
  "cmd uid text = \<lparr>c_user_id = uid, c_channel_id = ''C1'', c_text = Some text\<rparr>"

section \<open>Normalisation of keywords\<close>

text \<open>
  C2.  The claim: \<open>_clean_keyword\<close> is idempotent.  The code collapses whitespace
  before it removes the special characters, so removing a character that stands
  between two spaces leaves a double space, which a second pass collapses: on
  \<open>rock & roll\<close> the first pass returns \<open>rock  roll\<close> (two spaces), the second
  \<open>rock roll\<close>.
\<close>

theorem clean_keyword_not_idempotent:
  "clean_keyword ''rock & roll'' = ''rock  roll'' \<and>
   clean_keyword (clean_keyword ''rock & roll'') = ''rock roll'' \<and>
   parse_keywords ''rock & roll'' = [''rock  roll'']"
  by code_simp

section \<open>Grouping: the partition into groups\<close>

declare fallback_loop.simps [simp del] chunks.simps [simp del]

lemma fallback_loop_keywords:
  "map gkeywords (fallback_loop kws i groups) =
     map gkeywords groups @ chunks (max 3 (length kws div 5)) (drop i kws)"
proof (induction kws i groups rule: fallback_loop.induct)
  case (1 kws i groups)
  define gs where "gs = max 3 (length kws div 5)"
  define g where "g = \<lparr>gid = ''group_'' @ str_nat (length groups + 1),
                        gname = generate_group_name (take gs (drop i kws)),
                        gkeywords = take gs (drop i kws), gscore = 1 / 2\<rparr>"
  show ?case
  proof (cases "i < length kws")
    case True
    have step: "fallback_loop kws i groups = fallback_loop kws (i + gs) (groups @ [g])"
      using True by (subst fallback_loop.simps) (simp add: Let_def gs_def g_def)
    have ch: "chunks gs (drop i kws) = take gs (drop i kws) # chunks gs (drop (i + gs) kws)"
      using True by (subst chunks.simps) (simp add: gs_def add.commute)
    have "map gkeywords (fallback_loop kws (i + gs) (groups @ [g]))
            = map gkeywords (groups @ [g]) @ chunks gs (drop (i + gs) kws)"
      using 1 [OF gs_def True refl] by (simp add: g_def gs_def)
    then show ?thesis
      unfolding step gs_def [symmetric] ch by (simp add: g_def)
  next
    case False
    have "fallback_loop kws i groups = groups"
      using False by (subst fallback_loop.simps) (simp add: Let_def)
    moreover have "chunks (max 3 (length kws div 5)) (drop i kws) = []"
      using False by (subst chunks.simps) simp
    ultimately show ?thesis by simp
  qed
qed

lemma concat_chunks: "0 < n \<Longrightarrow> concat (chunks n xs) = xs"
proof (induction n xs rule: chunks.induct)
  case (1 n xs)
  then show ?case by (subst chunks.simps) auto
qed

lemma chunks_length_dvd:
  "0 < n \<Longrightarrow> n dvd length xs \<Longrightarrow> c \<in> set (chunks n xs) \<Longrightarrow> length c = n"
proof (induction n xs rule: chunks.induct)
  case (1 n xs)
  show ?case
  proof (cases "xs = []")
    case True
    with 1(4) show ?thesis by (subst (asm) chunks.simps) simp
  next
    case False
    with 1(2,3) have len: "n \<le> length xs" by (auto dest: dvd_imp_le)
    from 1(3) len have d: "n dvd length (drop n xs)" by (simp add: dvd_diff_nat)
    from 1(4) False 1(2) have "c = take n xs \<or> c \<in> set (chunks n (drop n xs))"
      by (subst (asm) chunks.simps) auto
    then show ?thesis using 1(1)[OF _ 1(2) d] False 1(2) len by auto
  qed
qed

lemma chunks_bounds:
  "0 < n \<Longrightarrow> c \<in> set (chunks n xs) \<Longrightarrow> c \<noteq> [] \<and> length c \<le> n \<and> subseq c xs"
proof (induction n xs rule: chunks.induct)
  case (1 n xs)
  show ?case
  proof (cases "xs = []")
    case True
    with 1(3) show ?thesis by (subst (asm) chunks.simps) simp
  next
    case False
    from 1(3) False 1(2) have "c = take n xs \<or> c \<in> set (chunks n (drop n xs))"
      by (subst (asm) chunks.simps) auto
    then show ?thesis
    proof
      assume "c = take n xs"
      then show ?thesis using False 1(2) by (auto intro: sublist_imp_subseq)
    next
      assume "c \<in> set (chunks n (drop n xs))"
      then have "c \<noteq> [] \<and> length c \<le> n \<and> subseq c (drop n xs)"
        using 1(1) False 1(2) by auto
      then show ?thesis
        by (meson subseq_order.order_trans suffix_drop suffix_imp_subseq)
    qed
  qed
qed

lemma fallback_loop_attrs:
  "g \<in> set (fallback_loop kws i groups) \<Longrightarrow>
   g \<in> set groups \<or> (gscore g = 1 / 2 \<and> gname g = generate_group_name (gkeywords g))"
proof (induction kws i groups rule: fallback_loop.induct)
  case (1 kws i groups)
  define gs where "gs = max 3 (length kws div 5)"
  define g' where "g' = \<lparr>gid = ''group_'' @ str_nat (length groups + 1),
                        gname = generate_group_name (take gs (drop i kws)),
                        gkeywords = take gs (drop i kws), gscore = 1 / 2\<rparr>"
  show ?case
  proof (cases "i < length kws")
    case True
    have step: "fallback_loop kws i groups = fallback_loop kws (i + gs) (groups @ [g'])"
      using True by (subst fallback_loop.simps) (simp add: Let_def gs_def g'_def)
    have "g \<in> set (fallback_loop kws (i + gs) (groups @ [g']))"
      using 1(2) unfolding step .
    then have "g \<in> set (groups @ [g']) \<or>
               (gscore g = 1 / 2 \<and> gname g = generate_group_name (gkeywords g))"
      using 1(1) [OF gs_def True refl] unfolding g'_def gs_def by blast
    moreover have "gscore g' = 1 / 2 \<and> gname g' = generate_group_name (gkeywords g')"
      by (simp add: g'_def)
    ultimately show ?thesis by auto
  next
    case False
    have "fallback_loop kws i groups = groups"
      using False by (subst fallback_loop.simps) (simp add: Let_def)
    with 1(2) show ?thesis by simp
  qed
qed

lemma subseq_map_nth_filter:
  "subseq (map (\<lambda>i. xs ! i) (filter P [0..<length xs])) xs"
proof (induction xs arbitrary: P rule: rev_induct)
  case Nil
  then show ?case by simp
next
  case (snoc x xs)
  have eq: "map (\<lambda>i. (xs @ [x]) ! i) (filter P [0..<length xs]) = map (\<lambda>i. xs ! i) (filter P [0..<length xs])"
    by (rule map_cong) (auto simp: nth_append)
  have "subseq (map (\<lambda>i. xs ! i) (filter P [0..<length xs]) @ (if P (length xs) then [x] else []))
               (xs @ [x])"
    by (rule list_emb_append_mono) (use snoc in auto)
  moreover have "map (\<lambda>i. (xs @ [x]) ! i) (filter P [0..<length (xs @ [x])])
          = map (\<lambda>i. xs ! i) (filter P [0..<length xs]) @ (if P (length xs) then [x] else [])"
    using eq by simp
  ultimately show ?case by (simp only:)
qed

lemma sum_filter_labels:
  "\<forall>x \<in> set xs. 0 \<le> f x \<and> f x < int k \<Longrightarrow>
   (\<Sum>c\<leftarrow>[0..<k]. mset (map g (filter (\<lambda>x. f x = int c) xs))) = mset (map g xs)"
proof (induction xs)
  case Nil
  then show ?case by simp
next
  case (Cons x xs)
  then have fx: "0 \<le> f x" "f x < int k" by auto
  have delta: "(\<Sum>c\<leftarrow>[0..<k]. if f x = int c then {#g x#} else {#}) = {#g x#}"
  proof -
    have "(\<Sum>c\<leftarrow>[0..<k]. if f x = int c then {#g x#} else {#})
          = (\<Sum>c\<in>{0..<k}. if nat (f x) = c then {#g x#} else {#})"
      unfolding interv_sum_list_conv_sum_set_nat using fx by (intro sum.cong) auto
    also have "\<dots> = (if nat (f x) \<in> {0..<k} then {#g x#} else {#})"
      by (rule sum.delta') simp
    also have "\<dots> = {#g x#}" using fx by simp
    finally show ?thesis .
  qed
  have "(\<Sum>c\<leftarrow>[0..<k]. mset (map g (filter (\<lambda>y. f y = int c) (x # xs))))
        = (\<Sum>c\<leftarrow>[0..<k]. (if f x = int c then {#g x#} else {#})
                              + mset (map g (filter (\<lambda>y. f y = int c) xs)))"
    by (rule arg_cong[where f=sum_list], rule map_cong) auto
  also have "\<dots> = {#g x#} + mset (map g xs)"
    using Cons delta by (simp add: sum_list_addf)
  finally show ?case by simp
qed

lemma mset_cluster_members:
  assumes "length kws \<le> length ls" and "\<forall>l \<in> set ls. 0 \<le> l \<and> l < int k"
  shows "(\<Sum>c\<leftarrow>[0..<k]. mset (cluster_members kws ls c)) = mset kws"
proof -
  have "\<forall>i \<in> set [0..<length kws]. 0 \<le> ls ! i \<and> ls ! i < int k"
    using assms by auto
  then have "(\<Sum>c\<leftarrow>[0..<k]. mset (map (\<lambda>i. kws ! i) (filter (\<lambda>i. ls ! i = int c) [0..<length kws])))
             = mset (map (\<lambda>i. kws ! i) [0..<length kws])"
    by (rule sum_filter_labels)
  then show ?thesis by (simp add: cluster_members_def map_nth)
qed

lemma concat_cluster_groups:
  "concat (map gkeywords (concat (map (\<lambda>c. if m c \<noteq> []
        then [\<lparr>gid = i c, gname = n c, gkeywords = m c, gscore = s\<rparr>] else []) cs)))
   = concat (map m cs)"
  by (induction cs) auto

lemma in_cluster_groups:
  "g \<in> set (concat (map (\<lambda>c. if m c \<noteq> []
        then [\<lparr>gid = i c, gname = n c, gkeywords = m c, gscore = s\<rparr>] else []) cs))
   \<Longrightarrow> \<exists>c. gkeywords g = m c \<and> m c \<noteq> []"
  by (induction cs) (auto split: if_splits)

lemma subseq_cluster_members: "subseq (cluster_members kws ls c) kws"
  unfolding cluster_members_def by (rule subseq_map_nth_filter)

lemma fallback_grouping_keywords:
  "map gkeywords (fallback_grouping kws) = chunks (max 3 (length kws div 5)) kws"
proof (cases "kws = []")
  case True
  then show ?thesis by (subst chunks.simps) (simp add: fallback_grouping_def)
next
  case False
  then show ?thesis by (simp add: fallback_grouping_def fallback_loop_keywords)
qed

lemma concat_fallback_grouping: "concat (map gkeywords (fallback_grouping kws)) = kws"
  by (simp add: fallback_grouping_keywords concat_chunks)

lemma fallback_grouping_member:
  assumes "g \<in> set (fallback_grouping kws)"
  shows "gkeywords g \<noteq> [] \<and> subseq (gkeywords g) kws"
proof -
  from assms have "gkeywords g \<in> set (map gkeywords (fallback_grouping kws))" by simp
  then have "gkeywords g \<in> set (chunks (max 3 (length kws div 5)) kws)"
    by (simp only: fallback_grouping_keywords)
  then show ?thesis using chunks_bounds [of "max 3 (length kws div 5)" "gkeywords g" kws] by simp
qed

lemma fallback_grouping_attrs:
  "g \<in> set (fallback_grouping kws) \<Longrightarrow>
   gscore g = 1 / 2 \<and> gname g = generate_group_name (gkeywords g)"
  using fallback_loop_attrs [of g kws 0 "[]"]
  by (auto simp: fallback_grouping_def split: if_splits)

lemma cluster_keywords_member:
  assumes "g \<in> set (cluster_keywords env kws embs)" and "kws \<noteq> []"
  shows "gkeywords g \<noteq> [] \<and> subseq (gkeywords g) kws"
proof -
  define n where "n = n_clusters_of env kws"
  consider (one) "n \<le> 1"
    | (fallback) "\<not> n \<le> 1" "cluster_keywords env kws embs = fallback_grouping kws"
    | (clusters) ls where "\<not> n \<le> 1"
        "cluster_keywords env kws embs =
           concat (map (\<lambda>c. if cluster_members kws ls c \<noteq> []
               then [\<lparr>gid = ''group_'' @ str_nat (c + 1),
                       gname = generate_group_name (cluster_members kws ls c),
                       gkeywords = cluster_members kws ls c, gscore = 4 / 5\<rparr>] else [])
             [0..<nat n])"
  proof (cases "n \<le> 1")
    case True
    then show ?thesis by (rule one)
  next
    case False
    show ?thesis
    proof (cases "kmeans_fit_predict env (n_clusters_of env kws) embs")
      case None
      with False show ?thesis
        by (intro fallback) (simp_all add: cluster_keywords_def n_def)
    next
      case (Some ls)
      show ?thesis
      proof (cases "length ls < length kws")
        case True
        with False Some show ?thesis
          by (intro fallback) (simp_all add: cluster_keywords_def n_def)
      next
        case short: False
        with False Some show ?thesis
          by (intro clusters [of ls]) (simp_all add: cluster_keywords_def n_def Let_def)
      qed
    qed
  qed
  then show ?thesis
  proof cases
    case one
    then have "cluster_keywords env kws embs =
                 [\<lparr>gid = ''group_1'', gname = generate_group_name kws, gkeywords = kws, gscore = 1\<rparr>]"
      by (simp add: cluster_keywords_def n_def)
    with assms show ?thesis by auto
  next
    case fallback
    with assms(1) have "g \<in> set (fallback_grouping kws)" by simp
    then show ?thesis by (rule fallback_grouping_member)
  next
    case clusters
    from assms(1) have "\<exists>c. gkeywords g = cluster_members kws ls c \<and> cluster_members kws ls c \<noteq> []"
      unfolding clusters(2) by (rule in_cluster_groups)
    then show ?thesis using subseq_cluster_members by auto
  qed
qed

lemma cluster_keywords_mset:
  assumes "\<forall>ls. kmeans_fit_predict env (n_clusters_of env kws) embs = Some ls \<longrightarrow>
             (\<forall>l \<in> set ls. 0 \<le> l \<and> l < n_clusters_of env kws)"
  shows "mset (concat (map gkeywords (cluster_keywords env kws embs))) = mset kws"
proof (cases "n_clusters_of env kws \<le> 1")
  case True
  then show ?thesis by (simp add: cluster_keywords_def)
next
  case False
  show ?thesis
  proof (cases "kmeans_fit_predict env (n_clusters_of env kws) embs")
    case None
    with False show ?thesis
      by (simp add: cluster_keywords_def concat_fallback_grouping)
  next
    case (Some ls)
    show ?thesis
    proof (cases "length ls < length kws")
      case True
      with False Some show ?thesis
        by (simp add: cluster_keywords_def concat_fallback_grouping)
    next
      case short: False
      from assms Some have "\<forall>l \<in> set ls. 0 \<le> l \<and> l < int (nat (n_clusters_of env kws))"
        using False by auto
      with short have "(\<Sum>c\<leftarrow>[0..<nat (n_clusters_of env kws)]. mset (cluster_members kws ls c)) = mset kws"
        by (intro mset_cluster_members) auto
      moreover have "concat (map gkeywords (cluster_keywords env kws embs))
                     = concat (map (cluster_members kws ls) [0..<nat (n_clusters_of env kws)])"
        using False Some short
        by (simp add: cluster_keywords_def Let_def concat_cluster_groups)
      ultimately show ?thesis by (simp add: mset_concat comp_def)
    qed
  qed
qed

lemma subseq_set_subset: "subseq xs ys \<Longrightarrow> set xs \<subseteq> set ys"
  by (auto dest: list_emb_set)

lemma group_keywords_member:
  assumes "g \<in> set (group_keywords env kws)" and "kws \<noteq> []"
  shows "gkeywords g \<noteq> [] \<and> subseq (gkeywords g) kws"
proof (cases "length kws < 2")
  case True
  with assms show ?thesis by (auto simp: group_keywords_def)
next
  case False
  show ?thesis
  proof (cases "generate_embeddings env kws")
    case None
    with False assms have "g \<in> set (fallback_grouping kws)"
      by (simp add: group_keywords_def)
    then show ?thesis by (rule fallback_grouping_member)
  next
    case (Some embs)
    with False assms have "g \<in> set (cluster_keywords env kws embs)"
      by (simp add: group_keywords_def)
    then show ?thesis using assms(2) by (rule cluster_keywords_member)
  qed
qed

text \<open>
  C1.  Whatever path \<open>group_keywords\<close> takes, the keywords of the groups it returns
  are, as a multiset, exactly the input keywords: none is lost and none is repeated;
  and the keywords of each group stand in their input order.  On the fallback path the
  groups, one after the other, are the input list itself.  \<open>KMeans\<close> is outside the
  repository: the labels it returns for this call are those of its \<open>n_clusters\<close>
  clusters, \<open>0 \<le> l < n_clusters\<close>.
\<close>

theorem group_keywords_partition:
  assumes "\<forall>embs ls. kmeans_fit_predict env (n_clusters_of env kws) embs = Some ls \<longrightarrow>
             (\<forall>l \<in> set ls. 0 \<le> l \<and> l < n_clusters_of env kws)"
  shows "mset (concat (map gkeywords (group_keywords env kws))) = mset kws \<and>
         (\<forall>g \<in> set (group_keywords env kws). subseq (gkeywords g) kws) \<and>
         concat (map gkeywords (fallback_grouping kws)) = kws \<and>
         (\<forall>g \<in> set (fallback_grouping kws). subseq (gkeywords g) kws)"
proof -
  have part: "mset (concat (map gkeywords (group_keywords env kws))) = mset kws"
  proof (cases "kws = [] \<or> length kws < 2")
    case True
    then show ?thesis by (auto simp: group_keywords_def)
  next
    case False
    show ?thesis
    proof (cases "generate_embeddings env kws")
      case None
      with False show ?thesis
        by (simp add: group_keywords_def concat_fallback_grouping)
    next
      case (Some embs)
      have "mset (concat (map gkeywords (cluster_keywords env kws embs))) = mset kws"
        using assms by (intro cluster_keywords_mset) blast
      with False Some show ?thesis by (simp add: group_keywords_def)
    qed
  qed
  have order: "subseq (gkeywords g) kws" if "g \<in> set (group_keywords env kws)" for g
  proof (cases "kws = []")
    case True
    with that show ?thesis by (simp add: group_keywords_def)
  next
    case False
    with that show ?thesis by (simp add: group_keywords_member)
  qed
  from part order show ?thesis
    by (simp add: concat_fallback_grouping fallback_grouping_member)
qed

theorem group_keywords_partition_witness:
  "mset (concat (map gkeywords (group_keywords grouper_ok kws6))) = mset kws6 \<and>
   map gkeywords (group_keywords grouper_ok kws6) =
     [[''seo tips'', ''content ideas'', ''email tools''],
      [''seo tools'', ''content plan'', ''email list'']]"
proof -
  have h: "\<forall>embs ls. kmeans_fit_predict grouper_ok (n_clusters_of grouper_ok kws6) embs = Some ls \<longrightarrow>
             (\<forall>l \<in> set ls. 0 \<le> l \<and> l < n_clusters_of grouper_ok kws6)"
    by (auto simp: grouper_ok_def n_clusters_of_def kws6_def)
  have "mset (concat (map gkeywords (group_keywords grouper_ok kws6))) = mset kws6"
    using group_keywords_partition [OF h] by blast
  moreover have "map gkeywords (group_keywords grouper_ok kws6) =
     [[''seo tips'', ''content ideas'', ''email tools''],
      [''seo tools'', ''content plan'', ''email list'']]"
    by code_simp
  ultimately show ?thesis by blast
qed

text \<open>
  C5.  When the embedding fails (no model, or \<open>encode\<close> raises) or the clustering
  raises, \<open>group_keywords\<close> returns the fallback grouping.  Its groups are the
  contiguous chunks of size \<open>max(3, |keywords| // 5)\<close> of the input, in input order;
  each has the score \<open>0.5\<close> and the name that \<open>_generate_group_name\<close> gives to its
  keywords.  On 12 keywords every group has at least 3 keywords, and all 12 are covered.
\<close>

theorem fallback_grouping_chunks:
  "map gkeywords (fallback_grouping kws) = chunks (max 3 (length kws div 5)) kws \<and>
   concat (map gkeywords (fallback_grouping kws)) = kws \<and>
   (\<forall>g \<in> set (fallback_grouping kws).
      gscore g = 1 / 2 \<and> gname g = generate_group_name (gkeywords g) \<and>
      gkeywords g \<noteq> [] \<and> length (gkeywords g) \<le> max 3 (length kws div 5)) \<and>
   (length kws = 12 \<longrightarrow> (\<forall>g \<in> set (fallback_grouping kws). 3 \<le> length (gkeywords g))) \<and>
   (2 \<le> length kws \<and> generate_embeddings env kws = None \<longrightarrow>
      group_keywords env kws = fallback_grouping kws) \<and>
   (2 \<le> length kws \<and> generate_embeddings env kws = Some embs \<and> 1 < n_clusters_of env kws \<and>
    kmeans_fit_predict env (n_clusters_of env kws) embs = None \<longrightarrow>
      group_keywords env kws = fallback_grouping kws)"
proof -
  have in_chunks: "gkeywords g \<in> set (chunks (max 3 (length kws div 5)) kws)"
    if "g \<in> set (fallback_grouping kws)" for g
  proof -
    from that have "gkeywords g \<in> set (map gkeywords (fallback_grouping kws))" by simp
    then show ?thesis by (simp only: fallback_grouping_keywords)
  qed
  have attrs: "gscore g = 1 / 2 \<and> gname g = generate_group_name (gkeywords g) \<and>
      gkeywords g \<noteq> [] \<and> length (gkeywords g) \<le> max 3 (length kws div 5)"
    if "g \<in> set (fallback_grouping kws)" for g
    using fallback_grouping_attrs [OF that]
      chunks_bounds [OF _ in_chunks [OF that]] by simp
  have twelve: "3 \<le> length (gkeywords g)"
    if "length kws = 12" "g \<in> set (fallback_grouping kws)" for g
  proof -
    from that(1) have gs: "max 3 (length kws div 5) = 3" by simp
    have "(3::nat) dvd length kws" using that(1) by simp
    with in_chunks [OF that(2)] have "length (gkeywords g) = 3"
      unfolding gs by (intro chunks_length_dvd [of 3 kws]) simp_all
    then show ?thesis by simp
  qed
  have emb: "group_keywords env kws = fallback_grouping kws"
    if "2 \<le> length kws" "generate_embeddings env kws = None"
    using that by (auto simp: group_keywords_def)
  have km: "group_keywords env kws = fallback_grouping kws"
    if "2 \<le> length kws" "generate_embeddings env kws = Some embs" "1 < n_clusters_of env kws"
       "kmeans_fit_predict env (n_clusters_of env kws) embs = None"
    using that by (auto simp: group_keywords_def cluster_keywords_def)
  show ?thesis
    using fallback_grouping_keywords concat_fallback_grouping attrs twelve emb km by blast
qed

theorem fallback_grouping_chunks_witness:
  "length kws12 = 12 \<and> generate_embeddings grouper_no_model kws12 = None \<and>
   group_keywords grouper_no_model kws12 = fallback_grouping kws12 \<and>
   map gkeywords (fallback_grouping kws12) =
     [[''seo tips'', ''seo tools'', ''content plan''],
      [''content ideas'', ''email list'', ''email tools''],
      [''link building'', ''link audit'', ''site speed''],
      [''site map'', ''local seo'', ''local ads'']] \<and>
   map gscore (fallback_grouping kws12) = [1 / 2, 1 / 2, 1 / 2, 1 / 2] \<and>
   map gname (fallback_grouping kws12) =
     [''seo related'', ''email related'', ''link related'', ''local related'']"
proof -
  have len: "length kws12 = 12" by (simp add: kws12_def kws6_def)
  have emb: "generate_embeddings grouper_no_model kws12 = None"
    by (simp add: generate_embeddings_def grouper_no_model_def)
  have "group_keywords grouper_no_model kws12 = fallback_grouping kws12"
    using fallback_grouping_chunks [of kws12 grouper_no_model] len emb by simp
  moreover have "map gkeywords (fallback_grouping kws12) =
     [[''seo tips'', ''seo tools'', ''content plan''],
      [''content ideas'', ''email list'', ''email tools''],
      [''link building'', ''link audit'', ''site speed''],
      [''site map'', ''local seo'', ''local ads'']]" by code_simp
  moreover have "map gscore (fallback_grouping kws12) = [1 / 2, 1 / 2, 1 / 2, 1 / 2]"
    by code_simp
  moreover have "map gname (fallback_grouping kws12) =
     [''seo related'', ''email related'', ''link related'', ''local related'']" by code_simp
  ultimately show ?thesis using len emb by blast
qed

text \<open>
  C7.  The claim: every group has a non-empty keyword list, also on the empty input.
  On the empty list \<open>group_keywords\<close> returns one group, named \<open>empty\<close>, whose keyword
  list is empty.
\<close>

theorem group_keywords_empty_group:
  "map gkeywords (group_keywords grouper_ok []) = [[]] \<and>
   map gname (group_keywords grouper_ok []) = [''empty'']"
  by code_simp

text \<open>
  C7, as amended.  On a non-empty input every group that \<open>group_keywords\<close> returns has
  a non-empty keyword list, whose members are keywords of the input; on an input of at
  most one keyword it returns exactly one group, with score \<open>1.0\<close>, holding the input
  (which is empty when the input is).
\<close>

theorem group_keywords_nonempty:
  "(kws \<noteq> [] \<longrightarrow>
      (\<forall>g \<in> set (group_keywords env kws). gkeywords g \<noteq> [] \<and> set (gkeywords g) \<subseteq> set kws)) \<and>
   (length kws \<le> 1 \<longrightarrow>
      (\<exists>g. group_keywords env kws = [g] \<and> gscore g = 1 \<and> gkeywords g = kws))"
proof -
  have "gkeywords g \<noteq> [] \<and> set (gkeywords g) \<subseteq> set kws"
    if "kws \<noteq> []" "g \<in> set (group_keywords env kws)" for g
    using group_keywords_member [OF that(2) that(1)] by (simp add: subseq_set_subset)
  moreover have "\<exists>g. group_keywords env kws = [g] \<and> gscore g = 1 \<and> gkeywords g = kws"
    if "length kws \<le> 1"
    using that by (simp add: group_keywords_def)
  ultimately show ?thesis by blast
qed

theorem group_keywords_nonempty_witness:
  "[''seo tips''] \<noteq> [] \<and> length [''seo tips''] \<le> 1 \<and>
   list_all (\<lambda>g. gkeywords g \<noteq> []) (group_keywords grouper_ok [''seo tips'']) \<and>
   map gscore (group_keywords grouper_ok [''seo tips'']) = [1] \<and>
   length (group_keywords grouper_ok kws6) = 2 \<and>
   list_all (\<lambda>g. gkeywords g \<noteq> []) (group_keywords grouper_ok kws6)"
proof -
  have ne: "kws6 \<noteq> []" by (simp add: kws6_def)
  have "list_all (\<lambda>g. gkeywords g \<noteq> []) (group_keywords grouper_ok kws6)"
    using group_keywords_nonempty [of kws6 grouper_ok] ne by (simp add: list_all_iff)
  moreover have "list_all (\<lambda>g. gkeywords g \<noteq> []) (group_keywords grouper_ok [''seo tips''])"
    using group_keywords_nonempty [of "[''seo tips'']" grouper_ok] by (simp add: list_all_iff)
  moreover have "map gscore (group_keywords grouper_ok [''seo tips'']) = [1]" by code_simp
  moreover have "length (group_keywords grouper_ok kws6) = 2" by code_simp
  ultimately show ?thesis by simp
qed

section \<open>Filtering similar keywords\<close>

lemma word_set_Nil: "word_set [] = {}"
  by (simp add: word_set_def py_split_def lower_def)

lemma calculate_similarity_jaccard:
  "calculate_similarity str1 str2 = jaccard (word_set str1) (word_set str2)"
proof (cases "word_set str1 = {} \<or> word_set str2 = {}")
  case True
  then have "jaccard (word_set str1) (word_set str2) = 0"
    by (auto simp: jaccard_def)
  moreover from True have "calculate_similarity str1 str2 = 0"
    by (auto simp: calculate_similarity_def word_set_def Let_def)
  ultimately show ?thesis by simp
next
  case False
  then have "str1 \<noteq> []" "str2 \<noteq> []"
    using word_set_Nil by auto
  with False show ?thesis
    by (auto simp: calculate_similarity_def word_set_def Let_def jaccard_def)
qed

lemma scan_existing_find:
  "scan_existing threshold keyword filtered rest =
     (case find (\<lambda>existing. calculate_similarity keyword existing > threshold) rest of
        None \<Rightarrow> (filtered, False)
      | Some existing \<Rightarrow>
          (if length keyword < length existing then remove1 existing filtered @ [keyword]
           else filtered, True))"
  by (induction rest) auto

lemma filter_step_spec:
  "(case scan_existing threshold keyword filtered filtered of
      (filtered', is_similar) \<Rightarrow> if is_similar then filtered' else filtered' @ [keyword])
   = spec_accept threshold filtered keyword"
  by (simp add: scan_existing_find spec_accept_def calculate_similarity_jaccard
           split: option.split)

lemma filter_loop_foldl:
  "filter_loop threshold kws filtered = foldl (spec_accept threshold) filtered kws"
proof (induction kws arbitrary: filtered)
  case Nil
  then show ?case by simp
next
  case (Cons keyword kws)
  have "filter_loop threshold (keyword # kws) filtered
        = filter_loop threshold kws (spec_accept threshold filtered keyword)"
    using filter_step_spec [where threshold = threshold and keyword = keyword and filtered = filtered]
    by (cases "scan_existing threshold keyword filtered filtered") auto
  then show ?case by (simp add: Cons)
qed

text \<open>
  C8.  \<open>filter_similar_keywords\<close> is the greedy pass of the specification: each keyword
  is compared with the keywords accepted so far by the Jaccard similarity of their word
  sets (\<open>_calculate_similarity\<close> is that quotient, \<open>0\<close> when a word set is empty);
  at the first accepted keyword whose similarity exceeds the threshold the shorter
  string is kept (a shorter newcomer replaces the accepted one), and a keyword similar
  to none is accepted.  On \<open>["content marketing", "content marketing strategy"]\<close> with
  threshold \<open>0.5\<close> only the shorter string stays.
\<close>

theorem filter_similar_keywords_greedy:
  "filter_similar_keywords kws threshold = filterSimilar_spec kws threshold \<and>
   calculate_similarity str1 str2 = jaccard (word_set str1) (word_set str2) \<and>
   filter_similar_keywords [''content marketing'', ''content marketing strategy''] (1 / 2)
     = [''content marketing'']"
proof -
  have "filter_similar_keywords kws threshold = filterSimilar_spec kws threshold"
    by (simp add: filter_similar_keywords_def filterSimilar_spec_def filter_loop_foldl)
  moreover have "filter_similar_keywords [''content marketing'', ''content marketing strategy''] (1 / 2)
     = [''content marketing'']"
    by code_simp
  ultimately show ?thesis using calculate_similarity_jaccard by blast
qed

section \<open>Cache, lock and rate limit\<close>

lemmas cache_defs = cache_get_def cache_set_def cache_exists_def cache_delete_def
  cache_increment_def cache_tick_def

lemma check_rate_limit_unavailable:
  assumes "\<not> redis_client env \<or> (\<forall>n. cache_raises env n)"
  shows "fst (check_rate_limit env uid w) = Inr True \<and>
         redis (snd (check_rate_limit env uid w)) = redis w"
  using assms by (auto simp: check_rate_limit_def cache_defs Let_def)

lemma cache_exists_unavailable:
  assumes "\<not> redis_client env \<or> (\<forall>n. cache_raises env n)"
  shows "cache_exists env key w = (False, if redis_client env then cache_tick w else w)"
  using assms by (auto simp: cache_defs)

lemma start_unavailable:
  assumes "\<not> redis_client env \<or> (\<forall>n. cache_raises env n)"
    and "\<not> slack_raises env (slack_calls w)"
  shows "tasks (snd (start_batch_processing env batch channel w)) = tasks w @ [(batch, channel)] \<and>
         posted (snd (start_batch_processing env batch channel w))
           = posted w @ [(channel, ProcessingStarted (b_id batch) (b_keyword_count batch))]"
  using assms
  by (auto simp: start_batch_processing_def cache_defs Let_def and_then_def chat_postMessage_def)

text \<open>
  C10.  When the cache is unavailable (no client, or every cache call raises and
  returns its default), every request passes \<open>_check_rate_limit\<close> and nothing is
  counted; \<open>exists\<close> reports no lock for any batch, so \<open>_start_batch_processing\<close> starts
  a run whatever the cache holds.
\<close>

theorem cache_unavailable_degrades:
  assumes "\<not> redis_client env \<or> (\<forall>n. cache_raises env n)"
  shows "fst (check_rate_limit env uid w) = Inr True \<and>
         redis (snd (check_rate_limit env uid w)) = redis w \<and>
         fst (cache_get env (rate_limit_key uid) w) = None \<and>
         fst (cache_exists env (lock_key bid) w) = False \<and>
         (\<not> slack_raises env (slack_calls w) \<longrightarrow>
            tasks (snd (start_batch_processing env batch channel w)) = tasks w @ [(batch, channel)] \<and>
            posted (snd (start_batch_processing env batch channel w))
              = posted w @ [(channel, ProcessingStarted (b_id batch) (b_keyword_count batch))])"
proof -
  have "fst (cache_get env (rate_limit_key uid) w) = None"
    using assms by (auto simp: cache_defs)
  moreover have "fst (cache_exists env (lock_key bid) w) = False"
    using assms by (simp add: cache_exists_unavailable)
  ultimately show ?thesis
    using check_rate_limit_unavailable [OF assms] start_unavailable [OF assms] by blast
qed

theorem cache_unavailable_degrades_witness:
  "\<not> redis_client env_no_cache \<and>
   redis world_locked (lock_key ''b1'') \<noteq> None \<and>
   fst (check_rate_limit env_no_cache ''U1'' world_locked) = Inr True \<and>
   fst (cache_exists env_no_cache (lock_key ''b1'') world_locked) = False \<and>
   tasks (snd (start_batch_processing env_no_cache batch1 ''C1'' world_locked)) = [(batch1, ''C1'')]"
proof -
  have a: "\<not> redis_client env_no_cache" by (simp add: env_no_cache_def)
  have b: "\<not> slack_raises env_no_cache (slack_calls world_locked)"
    by (simp add: env_no_cache_def env_ok_def)
  have c: "tasks world_locked = []" by (simp add: world_locked_def world1_def)
  have d: "redis world_locked (lock_key ''b1'') \<noteq> None" by (simp add: world_locked_def)
  from cache_unavailable_degrades [of env_no_cache "''U1''" world_locked "''b1''" batch1 "''C1''"]
    a b c d show ?thesis by simp
qed

lemma start_locked:
  assumes "redis_client env" "\<not> cache_raises env (cache_calls w)"
    "redis w (lock_key (b_id batch)) \<noteq> None"
  shows "start_batch_processing env batch channel w =
           (case chat_postMessage env channel AlreadyProcessing (cache_tick w) of
              (Inr u, w') \<Rightarrow> (Inr (), w')
            | (Inl e, w') \<Rightarrow> send_error_message env channel w')"
  using assms by (auto simp: start_batch_processing_def cache_exists_def Let_def)

text \<open>
  C4.  When the cache answers and holds the lock of the batch,
  \<open>_start_batch_processing\<close> starts no run, leaves the cache (the lock and its expiry
  time) and the store as they are, and, when the chat platform accepts the message,
  posts the ``already processing'' notice and nothing else.
\<close>

theorem start_batch_processing_locked:
  assumes "redis_client env" "\<not> cache_raises env (cache_calls w)"
    "redis w (lock_key (b_id batch)) \<noteq> None"
  shows "tasks (snd (start_batch_processing env batch channel w)) = tasks w \<and>
         redis (snd (start_batch_processing env batch channel w)) = redis w \<and>
         keyword_batches (snd (start_batch_processing env batch channel w)) = keyword_batches w \<and>
         keyword_groups (snd (start_batch_processing env batch channel w)) = keyword_groups w \<and>
         outlines (snd (start_batch_processing env batch channel w)) = outlines w \<and>
         db_calls (snd (start_batch_processing env batch channel w)) = db_calls w \<and>
         (\<not> slack_raises env (slack_calls w) \<longrightarrow>
            fst (start_batch_processing env batch channel w) = Inr () \<and>
            posted (snd (start_batch_processing env batch channel w))
              = posted w @ [(channel, AlreadyProcessing)])"
  unfolding start_locked [OF assms]
  by (simp add: chat_postMessage_def send_error_message_def cache_tick_def)

theorem start_batch_processing_locked_witness:
  "redis_client env_ok \<and> redis world_locked (lock_key (b_id batch1)) \<noteq> None \<and>
   tasks (snd (start_batch_processing env_ok batch1 ''C1'' world_locked)) = [] \<and>
   redis (snd (start_batch_processing env_ok batch1 ''C1'' world_locked)) = redis world_locked \<and>
   keyword_batches (snd (start_batch_processing env_ok batch1 ''C1'' world_locked)) ''b1''
     = Some batch1 \<and>
   posted (snd (start_batch_processing env_ok batch1 ''C1'' world_locked))
     = [(''C1'', AlreadyProcessing)]"
proof -
  have a: "redis_client env_ok" by (simp add: env_ok_def)
  have b: "\<not> cache_raises env_ok (cache_calls world_locked)" by (simp add: env_ok_def)
  have c: "redis world_locked (lock_key (b_id batch1)) \<noteq> None"
    by (simp add: world_locked_def batch1_def)
  have d: "\<not> slack_raises env_ok (slack_calls world_locked)" by (simp add: env_ok_def)
  have e: "tasks world_locked = []" "posted world_locked = []"
    "keyword_batches world_locked ''b1'' = Some batch1"
    by (simp_all add: world_locked_def world1_def)
  from start_batch_processing_locked [OF a b c, of "''C1''"] a c d e show ?thesis by simp
qed

lemma check_rate_limit_first:
  assumes "redis_client env" "\<forall>k. \<not> cache_raises env k" "redis w (rate_limit_key uid) = None"
  shows "fst (check_rate_limit env uid w) = Inr True \<and>
         redis (snd (check_rate_limit env uid w)) (rate_limit_key uid)
           = Some \<lparr>ce_value = CInt 1, ce_ttl = Some 900\<rparr>"
  using assms by (simp add: check_rate_limit_def cache_defs Let_def)

lemma check_rate_limit_below:
  assumes "redis_client env" "\<forall>k. \<not> cache_raises env k"
    "redis w (rate_limit_key uid) = Some \<lparr>ce_value = CInt n, ce_ttl = t\<rparr>" "n < 10"
  shows "fst (check_rate_limit env uid w) = Inr True \<and>
         redis (snd (check_rate_limit env uid w)) (rate_limit_key uid)
           = Some \<lparr>ce_value = CInt (n + 1), ce_ttl = t\<rparr>"
  using assms by (simp add: check_rate_limit_def cache_defs Let_def)

lemma check_rate_limit_full:
  assumes "redis_client env" "\<not> cache_raises env (cache_calls w)"
    "redis w (rate_limit_key uid) = Some \<lparr>ce_value = CInt n, ce_ttl = t\<rparr>" "10 \<le> n"
  shows "check_rate_limit env uid w = (Inr False, cache_tick w)"
  using assms by (simp add: check_rate_limit_def cache_defs Let_def)

lemma handle_keywords_rejected:
  assumes "redis_client env" "\<not> cache_raises env (cache_calls w)"
    "redis w (rate_limit_key (c_user_id c)) = Some \<lparr>ce_value = CInt n, ce_ttl = t\<rparr>" "10 \<le> n"
  shows "keyword_batches (snd (handle_keywords_command env c w)) = keyword_batches w \<and>
         keyword_groups (snd (handle_keywords_command env c w)) = keyword_groups w \<and>
         outlines (snd (handle_keywords_command env c w)) = outlines w \<and>
         tasks (snd (handle_keywords_command env c w)) = tasks w \<and>
         redis (snd (handle_keywords_command env c w)) = redis w \<and>
         db_calls (snd (handle_keywords_command env c w)) = db_calls w \<and>
         (\<not> slack_raises env (slack_calls w) \<longrightarrow>
            posted (snd (handle_keywords_command env c w))
              = posted w @ [(c_channel_id c, RateLimitExceeded)])"
  using check_rate_limit_full [OF assms]
  by (simp add: handle_keywords_command_def Let_def and_then_def send_rate_limit_message_def
        send_error_message_def chat_postMessage_def cache_tick_def)

lemma redis_chat_postMessage [simp]:
  "redis (snd (chat_postMessage env channel msg w)) = redis w"
  by (simp add: chat_postMessage_def)

lemma redis_process_keywords_from_text [simp]:
  "redis (snd (process_keywords_from_text env text uid channel w)) = redis w"
  by (simp add: process_keywords_from_text_def and_then_def create_keyword_batch_def
        send_error_message_def db_tick_def Let_def case_prod_unfold split: sum.splits)

lemma handle_keywords_command_redis:
  "redis (snd (handle_keywords_command env c w))
     = redis (snd (check_rate_limit env (c_user_id c) w))"
proof (cases "check_rate_limit env (c_user_id c) w")
  case (Pair r w1)
  then show ?thesis
    by (cases r)
       (simp_all add: handle_keywords_command_def and_then_def send_error_message_def
          send_rate_limit_message_def Let_def case_prod_unfold split: sum.splits)
qed

lemma keywords_requests_append:
  "keywords_requests env (cs @ cs') w = keywords_requests env cs' (keywords_requests env cs w)"
  by (induction cs arbitrary: w) simp_all

lemma keywords_requests_below:
  assumes "redis_client env" "\<forall>k. \<not> cache_raises env k"
  shows "\<forall>c \<in> set cs. c_user_id c = uid \<Longrightarrow>
         redis w (rate_limit_key uid) = Some \<lparr>ce_value = CInt n, ce_ttl = t\<rparr> \<Longrightarrow>
         n + int (length cs) \<le> 10 \<Longrightarrow>
         redis (keywords_requests env cs w) (rate_limit_key uid)
           = Some \<lparr>ce_value = CInt (n + int (length cs)), ce_ttl = t\<rparr>"
proof (induction cs arbitrary: w n)
  case Nil
  then show ?case by simp
next
  case (Cons c cs)
  have uid: "c_user_id c = uid" using Cons.prems(1) by simp
  have "redis (snd (check_rate_limit env uid w)) (rate_limit_key uid)
           = Some \<lparr>ce_value = CInt (n + 1), ce_ttl = t\<rparr>"
    using check_rate_limit_below [OF assms Cons.prems(2)] Cons.prems(3) by simp
  then have "redis (snd (handle_keywords_command env c w)) (rate_limit_key uid)
           = Some \<lparr>ce_value = CInt (n + 1), ce_ttl = t\<rparr>"
    by (simp add: handle_keywords_command_redis uid)
  then have "redis (keywords_requests env cs (snd (handle_keywords_command env c w))) (rate_limit_key uid)
           = Some \<lparr>ce_value = CInt (n + 1 + int (length cs)), ce_ttl = t\<rparr>"
    using Cons.prems by (intro Cons.IH) auto
  then show ?case by (simp add: add.commute add.left_commute)
qed

lemma keywords_requests_counter:
  assumes "redis_client env" "\<forall>k. \<not> cache_raises env k"
    "\<forall>c \<in> set cs. c_user_id c = uid" "redis w (rate_limit_key uid) = None"
    "cs \<noteq> []" "length cs \<le> 10"
  shows "redis (keywords_requests env cs w) (rate_limit_key uid)
           = Some \<lparr>ce_value = CInt (int (length cs)), ce_ttl = Some 900\<rparr>"
proof (cases cs)
  case Nil
  with assms(5) show ?thesis by simp
next
  case (Cons c cs')
  have uid: "c_user_id c = uid" using assms(3) Cons by simp
  have "redis (snd (check_rate_limit env uid w)) (rate_limit_key uid)
           = Some \<lparr>ce_value = CInt 1, ce_ttl = Some 900\<rparr>"
    using check_rate_limit_first [OF assms(1,2,4)] by simp
  then have "redis (snd (handle_keywords_command env c w)) (rate_limit_key uid)
           = Some \<lparr>ce_value = CInt 1, ce_ttl = Some 900\<rparr>"
    by (simp add: handle_keywords_command_redis uid)
  then have "redis (keywords_requests env cs' (snd (handle_keywords_command env c w))) (rate_limit_key uid)
           = Some \<lparr>ce_value = CInt (1 + int (length cs')), ce_ttl = Some 900\<rparr>"
    using assms(3,6) Cons by (intro keywords_requests_below [OF assms(1,2)]) auto
  then show ?thesis using Cons by (simp add: add.commute)
qed

text \<open>
  C6.  The claim: of the requests of one user that trigger the pipeline, the first 10
  in a window pass the rate-limit check and the 11th is rejected.  The check is
  called by \<open>handle_keywords_command\<close> only.  Here the user has used up the window
  with 11 \<open>/keywords\<close> requests, the check answers \<open>False\<close>, and the \<open>/process\<close>
  request still starts the pipeline run.
\<close>

theorem process_command_not_rate_limited:
  "fst (check_rate_limit env_ok ''U1''
          (keywords_requests env_ok (replicate 11 (cmd ''U1'' ''upload'')) world1)) = Inr False \<and>
   tasks (keywords_requests env_ok (replicate 11 (cmd ''U1'' ''upload'')) world1) = [] \<and>
   tasks (snd (handle_process_command env_ok (cmd ''U1'' ''b1'')
                 (keywords_requests env_ok (replicate 11 (cmd ''U1'' ''upload'')) world1)))
     = [(batch1, ''C1'')] \<and>
   last (posted (snd (handle_process_command env_ok (cmd ''U1'' ''b1'')
                 (keywords_requests env_ok (replicate 11 (cmd ''U1'' ''upload'')) world1))))
     = (''C1'', ProcessingStarted ''b1'' 1)"
  by code_simp

text \<open>
  C6, as amended.  With a working cache and no counter for the user yet, each of the
  first 10 \<open>/keywords\<close> requests of the user passes \<open>_check_rate_limit\<close>; the 11th
  does not: \<open>handle_keywords_command\<close> then changes neither the store nor the cache
  nor the started runs, and posts the rate-limit message; once the counter has
  expired the next request passes.
\<close>

theorem keywords_rate_limit_window:
  assumes "redis_client env" "\<forall>k. \<not> cache_raises env k"
    "redis w (rate_limit_key uid) = None"
    "\<forall>c \<in> set cs. c_user_id c = uid" "c_user_id c = uid"
  shows "(\<forall>i. i \<le> length cs \<and> i < 10 \<longrightarrow>
            fst (check_rate_limit env uid (keywords_requests env (take i cs) w)) = Inr True) \<and>
         (length cs = 10 \<longrightarrow>
            fst (check_rate_limit env uid (keywords_requests env cs w)) = Inr False \<and>
            keyword_batches (snd (handle_keywords_command env c (keywords_requests env cs w)))
              = keyword_batches (keywords_requests env cs w) \<and>
            keyword_groups (snd (handle_keywords_command env c (keywords_requests env cs w)))
              = keyword_groups (keywords_requests env cs w) \<and>
            outlines (snd (handle_keywords_command env c (keywords_requests env cs w)))
              = outlines (keywords_requests env cs w) \<and>
            tasks (snd (handle_keywords_command env c (keywords_requests env cs w)))
              = tasks (keywords_requests env cs w) \<and>
            redis (snd (handle_keywords_command env c (keywords_requests env cs w)))
              = redis (keywords_requests env cs w) \<and>
            (\<not> slack_raises env (slack_calls (keywords_requests env cs w)) \<longrightarrow>
               posted (snd (handle_keywords_command env c (keywords_requests env cs w)))
                 = posted (keywords_requests env cs w) @ [(c_channel_id c, RateLimitExceeded)]) \<and>
            fst (check_rate_limit env uid
                   (expire (rate_limit_key uid)
                      (snd (handle_keywords_command env c (keywords_requests env cs w))))) = Inr True)"
proof -
  have pass: "fst (check_rate_limit env uid (keywords_requests env (take i cs) w)) = Inr True"
    if "i \<le> length cs" "i < 10" for i
  proof (cases "i = 0")
    case True
    then show ?thesis using check_rate_limit_first [OF assms(1-3)] by simp
  next
    case False
    have "\<forall>c \<in> set (take i cs). c_user_id c = uid"
      using assms(4) by (auto dest: in_set_takeD)
    moreover have "take i cs \<noteq> []" "length (take i cs) \<le> 10" "length (take i cs) = i"
      using False that by auto
    ultimately have "redis (keywords_requests env (take i cs) w) (rate_limit_key uid)
           = Some \<lparr>ce_value = CInt (int i), ce_ttl = Some 900\<rparr>"
      using keywords_requests_counter [OF assms(1,2) _ assms(3), of "take i cs"] by simp
    then show ?thesis
      using check_rate_limit_below [OF assms(1,2)] that(2) by simp
  qed
  have window: "fst (check_rate_limit env uid (keywords_requests env cs w)) = Inr False \<and>
            keyword_batches (snd (handle_keywords_command env c (keywords_requests env cs w)))
              = keyword_batches (keywords_requests env cs w) \<and>
            keyword_groups (snd (handle_keywords_command env c (keywords_requests env cs w)))
              = keyword_groups (keywords_requests env cs w) \<and>
            outlines (snd (handle_keywords_command env c (keywords_requests env cs w)))
              = outlines (keywords_requests env cs w) \<and>
            tasks (snd (handle_keywords_command env c (keywords_requests env cs w)))
              = tasks (keywords_requests env cs w) \<and>
            redis (snd (handle_keywords_command env c (keywords_requests env cs w)))
              = redis (keywords_requests env cs w) \<and>
            (\<not> slack_raises env (slack_calls (keywords_requests env cs w)) \<longrightarrow>
               posted (snd (handle_keywords_command env c (keywords_requests env cs w)))
                 = posted (keywords_requests env cs w) @ [(c_channel_id c, RateLimitExceeded)]) \<and>
            fst (check_rate_limit env uid
                   (expire (rate_limit_key uid)
                      (snd (handle_keywords_command env c (keywords_requests env cs w))))) = Inr True"
    if len: "length cs = 10"
  proof -
    let ?w10 = "keywords_requests env cs w"
    have ne: "cs \<noteq> []" using len by auto
    have counter: "redis ?w10 (rate_limit_key uid) = Some \<lparr>ce_value = CInt 10, ce_ttl = Some 900\<rparr>"
      using keywords_requests_counter [OF assms(1,2,4,3) ne] len by simp
    have nc: "\<not> cache_raises env (cache_calls ?w10)" using assms(2) by simp
    have "check_rate_limit env uid ?w10 = (Inr False, cache_tick ?w10)"
      using assms(1) nc counter by (rule check_rate_limit_full) simp
    then have no: "fst (check_rate_limit env uid ?w10) = Inr False" by simp
    have counter': "redis ?w10 (rate_limit_key (c_user_id c))
                      = Some \<lparr>ce_value = CInt 10, ce_ttl = Some 900\<rparr>"
      using counter assms(5) by simp
    have rejected: "keyword_batches (snd (handle_keywords_command env c ?w10)) = keyword_batches ?w10 \<and>
         keyword_groups (snd (handle_keywords_command env c ?w10)) = keyword_groups ?w10 \<and>
         outlines (snd (handle_keywords_command env c ?w10)) = outlines ?w10 \<and>
         tasks (snd (handle_keywords_command env c ?w10)) = tasks ?w10 \<and>
         redis (snd (handle_keywords_command env c ?w10)) = redis ?w10 \<and>
         db_calls (snd (handle_keywords_command env c ?w10)) = db_calls ?w10 \<and>
         (\<not> slack_raises env (slack_calls ?w10) \<longrightarrow>
            posted (snd (handle_keywords_command env c ?w10))
              = posted ?w10 @ [(c_channel_id c, RateLimitExceeded)])"
      by (rule handle_keywords_rejected [OF assms(1) nc counter']) simp
    have "redis (expire (rate_limit_key uid) (snd (handle_keywords_command env c ?w10)))
            (rate_limit_key uid) = None"
      by (simp add: expire_def)
    then have "fst (check_rate_limit env uid
                 (expire (rate_limit_key uid) (snd (handle_keywords_command env c ?w10)))) = Inr True"
      using check_rate_limit_first [OF assms(1,2)] by blast
    with no rejected show ?thesis by simp
  qed
  from pass window show ?thesis by blast
qed

theorem keywords_rate_limit_window_witness:
  "redis_client env_ok \<and> redis world1 (rate_limit_key ''U1'') = None \<and>
   length (replicate 10 (cmd ''U1'' ''upload'')) = 10 \<and>
   fst (check_rate_limit env_ok ''U1''
          (keywords_requests env_ok (take 9 (replicate 10 (cmd ''U1'' ''upload''))) world1))
     = Inr True \<and>
   fst (check_rate_limit env_ok ''U1''
          (keywords_requests env_ok (replicate 10 (cmd ''U1'' ''upload'')) world1)) = Inr False \<and>
   keyword_batches (snd (handle_keywords_command env_ok (cmd ''U1'' ''seo tips, seo tools'')
                           (keywords_requests env_ok (replicate 10 (cmd ''U1'' ''upload'')) world1)))
     = keyword_batches (keywords_requests env_ok (replicate 10 (cmd ''U1'' ''upload'')) world1) \<and>
   fst (check_rate_limit env_ok ''U1''
          (expire (rate_limit_key ''U1'')
             (snd (handle_keywords_command env_ok (cmd ''U1'' ''seo tips, seo tools'')
                     (keywords_requests env_ok (replicate 10 (cmd ''U1'' ''upload'')) world1)))))
     = Inr True"
proof -
  have a: "redis_client env_ok" and b: "\<forall>k. \<not> cache_raises env_ok k"
    by (simp_all add: env_ok_def)
  have c: "redis world1 (rate_limit_key ''U1'') = None" by (simp add: world1_def)
  have d: "\<forall>c \<in> set (replicate 10 (cmd ''U1'' ''upload'')). c_user_id c = ''U1''"
    by (simp add: cmd_def)
  have e: "c_user_id (cmd ''U1'' ''seo tips, seo tools'') = ''U1''" by (simp add: cmd_def)
  have f: "length (replicate 10 (cmd ''U1'' ''upload'')) = 10" by simp
  have g: "9 \<le> length (replicate 10 (cmd ''U1'' ''upload'')) \<and> (9::nat) < 10" by simp
  note T = keywords_rate_limit_window [OF a b c d e]
  note pass = T [THEN conjunct1, rule_format, OF g]
  note window = T [THEN conjunct2, rule_format, OF f]
  from pass window a c f show ?thesis by simp
qed

section \<open>Ownership of a batch\<close>

text \<open>
  C9.  The claim: for process and for regenerate, the answer to a requester who does
  not own the batch differs from the answer for a batch that does not exist.  For
  regenerate both answers are \<open>format_batch_not_found\<close>.
\<close>

theorem regenerate_unauthorized_not_distinct:
  "keyword_batches world1 ''b1'' = Some batch1 \<and> b_user_id batch1 = ''U1'' \<and>
   keyword_batches world1 ''b9'' = None \<and>
   posted (snd (handle_regenerate_command env_ok (cmd ''U2'' ''b1'') world1))
     = [(''C1'', BatchNotFound)] \<and>
   posted (snd (handle_regenerate_command env_ok (cmd ''U2'' ''b9'') world1))
     = [(''C1'', BatchNotFound)]"
  by (simp add: handle_regenerate_command_def world1_def batch1_def env_ok_def cmd_def
        command_text_def strip_def strip_chars_def isspace_def get_keyword_batch_def
        db_tick_def chat_postMessage_def Let_def)

lemma handle_process_not_found:
  assumes "\<not> db_raises env (db_calls w)" "\<not> slack_raises env (slack_calls w)"
    "command_text c \<noteq> []" "keyword_batches w (command_text c) = None"
  shows "posted (snd (handle_process_command env c w)) = posted w @ [(c_channel_id c, BatchNotFound)]"
  using assms
  by (simp add: handle_process_command_def get_keyword_batch_def db_tick_def
        chat_postMessage_def Let_def)

lemma handle_process_unauthorized:
  assumes "\<not> db_raises env (db_calls w)" "\<not> slack_raises env (slack_calls w)"
    "command_text c \<noteq> []" "keyword_batches w (command_text c) = Some b"
    "b_user_id b \<noteq> c_user_id c"
  shows "posted (snd (handle_process_command env c w)) = posted w @ [(c_channel_id c, UnauthorizedBatch)]
       \<and> tasks (snd (handle_process_command env c w)) = tasks w
       \<and> redis (snd (handle_process_command env c w)) = redis w
       \<and> keyword_batches (snd (handle_process_command env c w)) = keyword_batches w"
  using assms
  by (simp add: handle_process_command_def get_keyword_batch_def db_tick_def
        chat_postMessage_def Let_def)

lemma handle_regenerate_not_owner:
  assumes "\<not> db_raises env (db_calls w)" "\<not> slack_raises env (slack_calls w)"
    "command_text c \<noteq> []"
    "keyword_batches w (command_text c) = None \<or>
     (\<exists>b. keyword_batches w (command_text c) = Some b \<and> b_user_id b \<noteq> c_user_id c)"
  shows "posted (snd (handle_regenerate_command env c w)) = posted w @ [(c_channel_id c, BatchNotFound)]"
  using assms
  by (auto simp: handle_regenerate_command_def get_keyword_batch_def db_tick_def
        chat_postMessage_def Let_def)

text \<open>
  C9, as amended.  For a process request on a batch that the requester does not own
  the answer is \<open>format_unauthorized_batch\<close>, which differs from the answer
  \<open>format_batch_not_found\<close> for a missing batch, and no run is started; a regenerate
  request answers \<open>format_batch_not_found\<close> in both cases.
\<close>

theorem process_unauthorized_distinct:
  assumes "\<not> db_raises env (db_calls w)" "\<not> slack_raises env (slack_calls w)"
    "command_text c \<noteq> []" "command_text c' \<noteq> []"
    "keyword_batches w (command_text c) = Some b" "b_user_id b \<noteq> c_user_id c"
    "keyword_batches w (command_text c') = None" "c_channel_id c' = c_channel_id c"
  shows "posted (snd (handle_process_command env c w)) = posted w @ [(c_channel_id c, UnauthorizedBatch)] \<and>
         posted (snd (handle_process_command env c' w)) = posted w @ [(c_channel_id c, BatchNotFound)] \<and>
         posted (snd (handle_process_command env c w)) \<noteq> posted (snd (handle_process_command env c' w)) \<and>
         tasks (snd (handle_process_command env c w)) = tasks w \<and>
         posted (snd (handle_regenerate_command env c w)) = posted w @ [(c_channel_id c, BatchNotFound)] \<and>
         posted (snd (handle_regenerate_command env c' w)) = posted w @ [(c_channel_id c, BatchNotFound)]"
proof -
  have u: "posted (snd (handle_process_command env c w)) = posted w @ [(c_channel_id c, UnauthorizedBatch)]"
    and t: "tasks (snd (handle_process_command env c w)) = tasks w"
    using handle_process_unauthorized [OF assms(1,2,3,5,6)] by simp_all
  have n: "posted (snd (handle_process_command env c' w)) = posted w @ [(c_channel_id c, BatchNotFound)]"
    using handle_process_not_found [OF assms(1,2,4,7)] assms(8) by simp
  have r1: "posted (snd (handle_regenerate_command env c w)) = posted w @ [(c_channel_id c, BatchNotFound)]"
    using assms(5,6) by (intro handle_regenerate_not_owner assms(1,2,3)) simp
  have r2: "posted (snd (handle_regenerate_command env c' w)) = posted w @ [(c_channel_id c, BatchNotFound)]"
    using handle_regenerate_not_owner [OF assms(1,2,4)] assms(7,8) by simp
  from u n t r1 r2 show ?thesis by simp
qed

theorem process_unauthorized_distinct_witness:
  "keyword_batches world1 (command_text (cmd ''U2'' ''b1'')) = Some batch1 \<and>
   b_user_id batch1 \<noteq> c_user_id (cmd ''U2'' ''b1'') \<and>
   keyword_batches world1 (command_text (cmd ''U2'' ''b9'')) = None \<and>
   posted (snd (handle_process_command env_ok (cmd ''U2'' ''b1'') world1))
     = [(''C1'', UnauthorizedBatch)] \<and>
   posted (snd (handle_process_command env_ok (cmd ''U2'' ''b9'') world1))
     = [(''C1'', BatchNotFound)]"
proof -
  have t1: "command_text (cmd ''U2'' ''b1'') = ''b1''" and t9: "command_text (cmd ''U2'' ''b9'') = ''b9''"
    by (simp_all add: command_text_def cmd_def strip_def strip_chars_def isspace_def)
  have a: "\<not> db_raises env_ok (db_calls world1)" "\<not> slack_raises env_ok (slack_calls world1)"
    by (simp_all add: env_ok_def)
  have b: "keyword_batches world1 (command_text (cmd ''U2'' ''b1'')) = Some batch1"
    "keyword_batches world1 (command_text (cmd ''U2'' ''b9'')) = None"
    unfolding t1 t9 by (simp_all add: world1_def)
  have c: "b_user_id batch1 \<noteq> c_user_id (cmd ''U2'' ''b1'')"
    "c_channel_id (cmd ''U2'' ''b9'') = c_channel_id (cmd ''U2'' ''b1'')"
    by (simp_all add: batch1_def cmd_def)
  have d: "command_text (cmd ''U2'' ''b1'') \<noteq> []" "command_text (cmd ''U2'' ''b9'') \<noteq> []"
    unfolding t1 t9 by simp_all
  have e: "posted world1 = []" "c_channel_id (cmd ''U2'' ''b1'') = ''C1''"
    by (simp_all add: world1_def cmd_def)
  from process_unauthorized_distinct [OF a d b(1) c(1) b(2) c(2)] b c(1) e
  show ?thesis by simp
qed

section \<open>Failure of a pipeline stage\<close>

lemma pipeline_except_releases:
  assumes "\<not> db_raises env (db_calls w)" "keyword_batches w (b_id batch) = Some b"
    "redis_client env" "\<not> cache_raises env (cache_calls w)"
  shows "map_option b_status (keyword_batches (snd (pipeline_except env batch channel w)) (b_id batch))
           = Some ''failed'' \<and>
         redis (snd (pipeline_except env batch channel w)) (lock_key (b_id batch)) = None"
  using assms
  by (simp add: pipeline_except_def and_then_def update_keyword_batch_def db_tick_def
        cache_delete_def cache_tick_def chat_postMessage_def Let_def)

lemma process_batch_background_failed:
  assumes "pipeline_try env batch channel w = (Inl e, w1)"
    "\<not> db_raises env (db_calls w1)" "keyword_batches w1 (b_id batch) = Some b"
    "redis_client env" "\<not> cache_raises env (cache_calls w1)"
  shows "map_option b_status
           (keyword_batches (snd (process_batch_background env batch channel w)) (b_id batch))
           = Some ''failed'' \<and>
         redis (snd (process_batch_background env batch channel w)) (lock_key (b_id batch)) = None"
  using pipeline_except_releases [OF assms(2-5)] assms(1)
  by (simp add: process_batch_background_def)

text \<open>
  C3.  The claim: when a stage raises, the final status is \<open>failed\<close> and the lock is
  gone, on every exit path.  The \<open>except\<close> branch first writes the status and then
  deletes the lock, and nothing catches what the write raises.  Here the store stops
  answering during the outline stage (\<open>create_outline\<close> raises): the status write of
  the \<open>except\<close> branch raises too, the status stays \<open>processing\<close> and the lock
  stays in the cache.
\<close>

theorem process_batch_background_lock_leak:
  "fst (pipeline_try env_store_down batch1 ''C1'' world_locked) = Inl StoreError \<and>
   fst (process_batch_background env_store_down batch1 ''C1'' world_locked) = Inl StoreError \<and>
   map_option b_status
     (keyword_batches (snd (process_batch_background env_store_down batch1 ''C1'' world_locked)) ''b1'')
     = Some ''processing'' \<and>
   fst (cache_exists env_store_down (lock_key ''b1'')
          (snd (process_batch_background env_store_down batch1 ''C1'' world_locked))) = True"
  by code_simp

end
